theory Spec2Isabelle
  imports Main
begin

section \<open>Objects, raw blocks and outcomes\<close>

text \<open>
  The embedding of \<^verbatim>\<open>vector.h\<close>. Objects of class \<^verbatim>\<open>RawMemory\<close> and \<^verbatim>\<open>Vector\<close> live in a
  store that is split by field: \<open>buffer_m\<close>, \<open>capacity_m\<close> and \<open>size_m\<close> map the address of an
  object to the value of that member, so two references to the same object alias as they do
  in the program. The member \<^verbatim>\<open>data_\<close> of a \<^verbatim>\<open>Vector\<close> is a subobject at the vector's own
  address. No member function of the source has more than one automatic variable of class
  type alive at a time (\<^verbatim>\<open>new_data\<close> in \<^verbatim>\<open>Reserve\<close> and \<^verbatim>\<open>Emplace\<close>, \<^verbatim>\<open>rhs_copy\<close> in the copy
  assignment), so one address, \<open>Local\<close>, stands for it. The members \<^verbatim>\<open>buffer_\<close>,
  \<^verbatim>\<open>capacity_\<close> and \<^verbatim>\<open>size_\<close> are written \<open>buffer_m\<close>, \<open>capacity_m\<close> and \<open>size_m\<close>.
\<close>

datatype obj = Global nat | Local

type_synonym addr = nat

text \<open>A \<^verbatim>\<open>T*\<close>: the block it points into (\<open>None\<close> for \<^verbatim>\<open>nullptr\<close>) and the offset in slots.\<close>

type_synonym ptr = "addr option \<times> nat"

text \<open>
  The heap is the list of all blocks \<^verbatim>\<open>operator new\<close> ever handed out, indexed by address;
  a released block stays in the list as \<open>None\<close> and its address is never reused. A slot of
  a block is \<open>None\<close> while it is uninitialised storage and \<open>Some v\<close> while it holds a live
  object of value \<open>v\<close>. \<open>calls\<close> counts the operations of \<^verbatim>\<open>T\<close> invoked so far and \<open>allocs\<close>
  the calls of \<^verbatim>\<open>operator new\<close>; \<open>leaked\<close> counts the objects whose storage was released
  or reused without their destructor having run.
\<close>

record 'a state =
  buffer_m :: "obj \<Rightarrow> addr option"
  capacity_m :: "obj \<Rightarrow> nat"
  size_m :: "obj \<Rightarrow> nat"
  heap :: "'a option list option list"
  calls :: nat
  allocs :: nat
  leaked :: nat

datatype elem_op = DefaultCtor | ArgsCtor | CopyCtor | MoveCtor | CopyAssign | MoveAssign

text \<open>
  What the template is instantiated with, taken as a parameter: the two type traits the
  source asks for, which operations of \<^verbatim>\<open>T\<close> throw (by kind, by the number of operations
  invoked before, and by the value operated on), the state a moved-from object is left in,
  the value-initialised object, \<^verbatim>\<open>sizeof(T)\<close>, and which calls of \<^verbatim>\<open>operator new\<close> fail
  (by the number of earlier calls and the number of bytes asked for).
\<close>

record 'a env =
  is_nothrow_move_constructible :: bool
  is_copy_constructible :: bool
  throws :: "elem_op \<Rightarrow> nat \<Rightarrow> 'a \<Rightarrow> bool"
  moved_from :: "'a \<Rightarrow> 'a"
  value_init :: 'a
  sizeof_T :: nat
  new_fails :: "nat \<Rightarrow> nat \<Rightarrow> bool"

datatype exn = BadAlloc | ElemExn

text \<open>
  \<open>UB\<close>: a failed \<^verbatim>\<open>assert\<close> or undefined behaviour (a read of uninitialised storage, an
  access outside a block, a release of a block that is not allocated, an invalid range);
  \<open>Terminated\<close>: an exception left a \<^verbatim>\<open>noexcept\<close> function.
\<close>

datatype fault = UB | Terminated

datatype ('r, 's) res = Ret 'r 's | Throw exn 's | Fault fault

definition bnd :: "('s \<Rightarrow> ('a, 's) res) \<Rightarrow> ('a \<Rightarrow> 's \<Rightarrow> ('b, 's) res) \<Rightarrow> 's \<Rightarrow> ('b, 's) res" where
  "bnd m f s = (case m s of Ret x s' \<Rightarrow> f x s' | Throw e s' \<Rightarrow> Throw e s' | Fault w \<Rightarrow> Fault w)"

definition ret :: "'a \<Rightarrow> 's \<Rightarrow> ('a, 's) res" where
  "ret x s = Ret x s"

text \<open>\<^verbatim>\<open>noexcept\<close>: an exception that reaches the function's boundary calls \<^verbatim>\<open>std::terminate\<close>.\<close>

definition noexcept :: "('s \<Rightarrow> ('a, 's) res) \<Rightarrow> 's \<Rightarrow> ('a, 's) res" where
  "noexcept m s = (case m s of Throw e s' \<Rightarrow> Fault Terminated | r \<Rightarrow> r)"

text \<open>\<^verbatim>\<open>try { m } catch (...) { h; throw; }\<close>\<close>

definition try_catch_rethrow :: "('s \<Rightarrow> ('a, 's) res) \<Rightarrow> ('s \<Rightarrow> (unit, 's) res) \<Rightarrow> 's \<Rightarrow> ('a, 's) res" where
  "try_catch_rethrow m h s =
     (case m s of
        Throw e s' \<Rightarrow> (case h s' of Ret _ s'' \<Rightarrow> Throw e s'' | Throw e' s'' \<Rightarrow> Throw e' s'' | Fault w \<Rightarrow> Fault w)
      | r \<Rightarrow> r)"

text \<open>A scope with an automatic variable: its destructor \<open>d\<close> runs on both ways out.\<close>

definition scope :: "('s \<Rightarrow> ('a, 's) res) \<Rightarrow> ('s \<Rightarrow> (unit, 's) res) \<Rightarrow> 's \<Rightarrow> ('a, 's) res" where
  "scope m d s =
     (case m s of
        Ret x s' \<Rightarrow> (case d s' of Ret _ s'' \<Rightarrow> Ret x s'' | Throw e' s'' \<Rightarrow> Throw e' s'' | Fault w \<Rightarrow> Fault w)
      | Throw e s' \<Rightarrow> (case d s' of Ret _ s'' \<Rightarrow> Throw e s'' | Throw e' s'' \<Rightarrow> Fault Terminated | Fault w \<Rightarrow> Fault w)
      | Fault w \<Rightarrow> Fault w)"

section \<open>The language and library primitives the source uses\<close>

definition block_at :: "'a state \<Rightarrow> addr \<Rightarrow> 'a option list option" where
  "block_at s a = (if a < length (heap s) then heap s ! a else None)"

text \<open>The slot a pointer designates: \<open>None\<close> when it points into no allocated block.\<close>

definition slot :: "'a state \<Rightarrow> ptr \<Rightarrow> 'a option option" where
  "slot s p =
     (case fst p of None \<Rightarrow> None
      | Some a \<Rightarrow> (case block_at s a of None \<Rightarrow> None
                   | Some blk \<Rightarrow> if snd p < length blk then Some (blk ! snd p) else None))"

definition set_slot :: "ptr \<Rightarrow> 'a option \<Rightarrow> 'a state \<Rightarrow> 'a state" where
  "set_slot p x s =
     (case fst p of None \<Rightarrow> s
      | Some a \<Rightarrow> (case block_at s a of None \<Rightarrow> s
                   | Some blk \<Rightarrow> s\<lparr>heap := (heap s)[a := Some (blk[snd p := x])]\<rparr>))"

definition ptr_add :: "ptr \<Rightarrow> nat \<Rightarrow> ptr" where
  "ptr_add p n = (fst p, snd p + n)"

text \<open>\<^verbatim>\<open>p - n\<close>: a pointer before the start of the block cannot be formed.\<close>

definition ptr_sub :: "ptr \<Rightarrow> nat \<Rightarrow> 's \<Rightarrow> (ptr, 's) res" where
  "ptr_sub p n s = (if n \<le> snd p then Ret (fst p, snd p - n) s else Fault UB)"

text \<open>\<^verbatim>\<open>p - q\<close>: defined for two pointers into the same block with \<open>q\<close> not after \<open>p\<close>.\<close>

definition ptr_diff :: "ptr \<Rightarrow> ptr \<Rightarrow> 's \<Rightarrow> (nat, 's) res" where
  "ptr_diff p q s = (if fst p = fst q \<and> snd q \<le> snd p then Ret (snd p - snd q) s else Fault UB)"

text \<open>
  The integer types have the widths of the usual 64-bit platforms: \<^verbatim>\<open>size_t\<close> and
  \<^verbatim>\<open>ptrdiff_t\<close> have 64 bits, \<^verbatim>\<open>int\<close> has 32. A \<^verbatim>\<open>size_t\<close> is modelled by \<open>nat\<close>; the
  products \<^verbatim>\<open>n * sizeof(T)\<close> and \<^verbatim>\<open>size_ * 2\<close>, the increment \<^verbatim>\<open>++size_\<close> and the unguarded
  differences of the source are computed modulo \<open>2 ^ 64\<close>.
\<close>

definition size_mul :: "nat \<Rightarrow> nat \<Rightarrow> nat" where
  "size_mul a b = (a * b) mod 2 ^ 64"

definition size_add :: "nat \<Rightarrow> nat \<Rightarrow> nat" where
  "size_add a b = (a + b) mod 2 ^ 64"

definition size_sub :: "nat \<Rightarrow> nat \<Rightarrow> nat" where
  "size_sub a b = (if b \<le> a then a - b else a + 2 ^ 64 - b)"

text \<open>
  The conversions of an offset. \<^verbatim>\<open>auto delta = pos - begin()\<close> is a \<^verbatim>\<open>ptrdiff_t\<close>; passed
  for a parameter \<^verbatim>\<open>int delta\<close> it is narrowed to 32 bits, the value modulo \<open>2 ^ 32\<close> that
  lies in \<open>[- 2 ^ 31, 2 ^ 31)\<close> (what C++20 prescribes and earlier implementations do). An
  \<^verbatim>\<open>int\<close> used where a \<^verbatim>\<open>size_t\<close> is expected is taken modulo \<open>2 ^ 64\<close>, so a negative offset
  becomes a huge one.
\<close>

definition to_int :: "nat \<Rightarrow> int" where
  "to_int d = (let m = int d mod 2 ^ 32 in if m < 2 ^ 31 then m else m - 2 ^ 32)"

definition to_size_t :: "int \<Rightarrow> nat" where
  "to_size_t i = nat (i mod 2 ^ 64)"

text \<open>
  \<^verbatim>\<open>operator new(bytes)\<close> and \<^verbatim>\<open>operator delete(buf)\<close>. A block of \<open>bytes\<close> bytes has room
  for \<open>bytes div sizeof(T)\<close> objects of type \<^verbatim>\<open>T\<close>.
\<close>

definition operator_new :: "'a env \<Rightarrow> nat \<Rightarrow> 'a state \<Rightarrow> (addr, 'a state) res" where
  "operator_new E bytes s =
     (if new_fails E (allocs s) bytes then Throw BadAlloc (s\<lparr>allocs := allocs s + 1\<rparr>)
      else Ret (length (heap s))
               (s\<lparr>heap := heap s @ [Some (replicate (bytes div sizeof_T E) None)],
                  allocs := allocs s + 1\<rparr>))"

definition live_count :: "'a option list \<Rightarrow> nat" where
  "live_count blk = length (filter (\<lambda>x. x \<noteq> None) blk)"

definition operator_delete :: "addr option \<Rightarrow> 'a state \<Rightarrow> (unit, 'a state) res" where
  "operator_delete buf s =
     (case buf of None \<Rightarrow> Ret () s
      | Some a \<Rightarrow> (case block_at s a of None \<Rightarrow> Fault UB
                   | Some blk \<Rightarrow> Ret () (s\<lparr>heap := (heap s)[a := None],
                                            leaked := leaked s + live_count blk\<rparr>)))"

text \<open>Whether the operation of kind \<open>k\<close> invoked now on value \<open>v\<close> throws.\<close>

definition op_throws :: "'a env \<Rightarrow> elem_op \<Rightarrow> 'a state \<Rightarrow> 'a \<Rightarrow> bool" where
  "op_throws E k s v =
     (throws E k (calls s) v \<and> \<not> (k = MoveCtor \<and> is_nothrow_move_constructible E))"

text \<open>\<^verbatim>\<open>new (p) T(...)\<close>, the constructor of kind \<open>k\<close> building the value \<open>v\<close>.\<close>

definition construct_at :: "'a env \<Rightarrow> elem_op \<Rightarrow> ptr \<Rightarrow> 'a \<Rightarrow> 'a state \<Rightarrow> (unit, 'a state) res" where
  "construct_at E k p v s =
     (case slot s p of None \<Rightarrow> Fault UB
      | Some old \<Rightarrow>
          if op_throws E k s v then Throw ElemExn (s\<lparr>calls := calls s + 1\<rparr>)
          else Ret () ((set_slot p (Some v) s)
                 \<lparr>calls := calls s + 1, leaked := leaked s + (if old = None then 0 else 1)\<rparr>))"

text \<open>\<^verbatim>\<open>std::destroy_at(p)\<close>\<close>

definition destroy_at :: "ptr \<Rightarrow> 'a state \<Rightarrow> (unit, 'a state) res" where
  "destroy_at p s =
     (case slot s p of Some (Some v) \<Rightarrow> Ret () (set_slot p None s) | _ \<Rightarrow> Fault UB)"

text \<open>Reading the live object \<^verbatim>\<open>*p\<close>.\<close>

definition load :: "ptr \<Rightarrow> 'a state \<Rightarrow> ('a, 'a state) res" where
  "load p s = (case slot s p of Some (Some v) \<Rightarrow> Ret v s | _ \<Rightarrow> Fault UB)"

text \<open>\<^verbatim>\<open>new (dst) T(*src)\<close> and \<^verbatim>\<open>new (dst) T(std::move(*src))\<close>\<close>

definition copy_construct :: "'a env \<Rightarrow> ptr \<Rightarrow> ptr \<Rightarrow> 'a state \<Rightarrow> (unit, 'a state) res" where
  "copy_construct E dst src = bnd (load src) (\<lambda>v. construct_at E CopyCtor dst v)"

definition move_construct :: "'a env \<Rightarrow> ptr \<Rightarrow> ptr \<Rightarrow> 'a state \<Rightarrow> (unit, 'a state) res" where
  "move_construct E dst src =
     bnd (load src) (\<lambda>v. bnd (construct_at E MoveCtor dst v)
       (\<lambda>_ s. Ret () (set_slot src (Some (moved_from E v)) s)))"

text \<open>\<^verbatim>\<open>*dst = v\<close>: an assignment of kind \<open>k\<close> to the live object \<^verbatim>\<open>*dst\<close>.\<close>

definition assign_at :: "'a env \<Rightarrow> elem_op \<Rightarrow> ptr \<Rightarrow> 'a \<Rightarrow> 'a state \<Rightarrow> (unit, 'a state) res" where
  "assign_at E k dst v s =
     (case slot s dst of
        Some (Some old) \<Rightarrow>
          if op_throws E k s v then Throw ElemExn (s\<lparr>calls := calls s + 1\<rparr>)
          else Ret () ((set_slot dst (Some v) s)\<lparr>calls := calls s + 1\<rparr>)
      | _ \<Rightarrow> Fault UB)"

text \<open>\<^verbatim>\<open>*dst = *src\<close> and \<^verbatim>\<open>*dst = std::move(*src)\<close>\<close>

definition copy_assign :: "'a env \<Rightarrow> ptr \<Rightarrow> ptr \<Rightarrow> 'a state \<Rightarrow> (unit, 'a state) res" where
  "copy_assign E dst src = bnd (load src) (\<lambda>v. assign_at E CopyAssign dst v)"

definition move_assign :: "'a env \<Rightarrow> ptr \<Rightarrow> ptr \<Rightarrow> 'a state \<Rightarrow> (unit, 'a state) res" where
  "move_assign E dst src =
     bnd (load src) (\<lambda>v. bnd (assign_at E MoveAssign dst v)
       (\<lambda>_ s. Ret () (if dst = src then s else set_slot src (Some (moved_from E v)) s)))"

text \<open>\<^verbatim>\<open>std::destroy_n(p, n)\<close>: destroys \<open>p[0]\<close>, ..., \<open>p[n-1]\<close> in this order.\<close>

primrec destroy_n :: "ptr \<Rightarrow> nat \<Rightarrow> 'a state \<Rightarrow> (unit, 'a state) res" where
  "destroy_n p 0 = ret ()"
| "destroy_n p (Suc n) = bnd (destroy_at p) (\<lambda>_. destroy_n (ptr_add p 1) n)"

text \<open>
  The rollback of the \<^verbatim>\<open>std::uninitialized_*\<close> algorithms: the objects already built,
  \<open>first[0]\<close> up to \<open>first[i-1]\<close>, are destroyed and the exception goes on.
\<close>

primrec uninit_loop ::
  "(ptr \<Rightarrow> nat \<Rightarrow> 'a state \<Rightarrow> (unit, 'a state) res) \<Rightarrow> ptr \<Rightarrow> nat \<Rightarrow> nat \<Rightarrow> 'a state \<Rightarrow> (unit, 'a state) res" where
  "uninit_loop body first i 0 = ret ()"
| "uninit_loop body first i (Suc n) =
     bnd (try_catch_rethrow (body first i) (destroy_n first i))
         (\<lambda>_. uninit_loop body first (Suc i) n)"

text \<open>\<^verbatim>\<open>std::uninitialized_copy_n(src, n, dst)\<close>, \<^verbatim>\<open>std::uninitialized_move_n(src, n, dst)\<close>,
  \<^verbatim>\<open>std::uninitialized_value_construct_n(dst, n)\<close>\<close>

definition uninitialized_copy_n :: "'a env \<Rightarrow> ptr \<Rightarrow> nat \<Rightarrow> ptr \<Rightarrow> 'a state \<Rightarrow> (unit, 'a state) res" where
  "uninitialized_copy_n E src n dst =
     uninit_loop (\<lambda>d i. copy_construct E (ptr_add d i) (ptr_add src i)) dst 0 n"

definition uninitialized_move_n :: "'a env \<Rightarrow> ptr \<Rightarrow> nat \<Rightarrow> ptr \<Rightarrow> 'a state \<Rightarrow> (unit, 'a state) res" where
  "uninitialized_move_n E src n dst =
     uninit_loop (\<lambda>d i. move_construct E (ptr_add d i) (ptr_add src i)) dst 0 n"

definition uninitialized_value_construct_n :: "'a env \<Rightarrow> ptr \<Rightarrow> nat \<Rightarrow> 'a state \<Rightarrow> (unit, 'a state) res" where
  "uninitialized_value_construct_n E dst n =
     uninit_loop (\<lambda>d i. construct_at E DefaultCtor (ptr_add d i) (value_init E)) dst 0 n"

text \<open>
  \<^verbatim>\<open>std::move_backward(first, last, d_last)\<close>: \<^verbatim>\<open>*--d_last = std::move(*--last)\<close> until
  \<open>last\<close> reaches \<open>first\<close>. The standard requires \<open>[first, last)\<close> to be a valid range;
  with \<open>last\<close> before \<open>first\<close>, or the two in different blocks, the behaviour is undefined.
\<close>

primrec move_backward_loop :: "'a env \<Rightarrow> ptr \<Rightarrow> ptr \<Rightarrow> nat \<Rightarrow> 'a state \<Rightarrow> (unit, 'a state) res" where
  "move_backward_loop E first d_first 0 = ret ()"
| "move_backward_loop E first d_first (Suc n) =
     bnd (move_assign E (ptr_add d_first n) (ptr_add first n))
         (\<lambda>_. move_backward_loop E first d_first n)"

definition move_backward :: "'a env \<Rightarrow> ptr \<Rightarrow> ptr \<Rightarrow> ptr \<Rightarrow> 'a state \<Rightarrow> (unit, 'a state) res" where
  "move_backward E first lst d_last s =
     (if fst first = fst lst \<and> snd first \<le> snd lst \<and> snd lst - snd first \<le> snd d_last
      then move_backward_loop E first (fst d_last, snd d_last - (snd lst - snd first))
             (snd lst - snd first) s
      else Fault UB)"

text \<open>An automatic \<^verbatim>\<open>T tmp(...)\<close>: the constructor of kind \<open>k\<close> runs, nothing is stored in a block.\<close>

definition make_temp :: "'a env \<Rightarrow> elem_op \<Rightarrow> 'a \<Rightarrow> 'a state \<Rightarrow> ('a, 'a state) res" where
  "make_temp E k v s =
     (if op_throws E k s v then Throw ElemExn (s\<lparr>calls := calls s + 1\<rparr>)
      else Ret v (s\<lparr>calls := calls s + 1\<rparr>))"

section \<open>class RawMemory\<close>

text \<open>\<^verbatim>\<open>return n != 0 ? static_cast<T*>(operator new(n * sizeof(T))) : nullptr;\<close>\<close>

definition Allocate :: "'a env \<Rightarrow> nat \<Rightarrow> 'a state \<Rightarrow> (addr option, 'a state) res" where
  "Allocate E n =
     (if n \<noteq> 0 then bnd (operator_new E (size_mul n (sizeof_T E))) (\<lambda>a. ret (Some a))
      else ret None)"

definition Deallocate :: "addr option \<Rightarrow> 'a state \<Rightarrow> (unit, 'a state) res" where
  "Deallocate buf = noexcept (operator_delete buf)"

text \<open>\<^verbatim>\<open>RawMemory() = default\<close>\<close>

definition RawMemory_default :: "obj \<Rightarrow> 'a state \<Rightarrow> (unit, 'a state) res" where
  "RawMemory_default this s =
     Ret () (s\<lparr>buffer_m := (buffer_m s)(this := None), capacity_m := (capacity_m s)(this := 0)\<rparr>)"

text \<open>\<^verbatim>\<open>explicit RawMemory(size_t capacity)\<close>\<close>

definition RawMemory_ctor :: "'a env \<Rightarrow> obj \<Rightarrow> nat \<Rightarrow> 'a state \<Rightarrow> (unit, 'a state) res" where
  "RawMemory_ctor E this cap =
     bnd (Allocate E cap) (\<lambda>buf s.
       Ret () (s\<lparr>buffer_m := (buffer_m s)(this := buf),
                 capacity_m := (capacity_m s)(this := cap)\<rparr>))"

text \<open>
  \<^verbatim>\<open>buffer_ = std::exchange(other.buffer_, nullptr); capacity_ = std::exchange(other.capacity_, 0);\<close>
  Each \<^verbatim>\<open>std::exchange\<close> reads the old value, stores the new one, and only then is the
  old value assigned to the member of \<open>this\<close>.
\<close>

definition steal :: "obj \<Rightarrow> obj \<Rightarrow> 'a state \<Rightarrow> (unit, 'a state) res" where
  "steal this other s =
     (let b = buffer_m s other;
          s1 = s\<lparr>buffer_m := (buffer_m s)(other := None)\<rparr>;
          s2 = s1\<lparr>buffer_m := (buffer_m s1)(this := b)\<rparr>;
          c = capacity_m s2 other;
          s3 = s2\<lparr>capacity_m := (capacity_m s2)(other := 0)\<rparr>;
          s4 = s3\<lparr>capacity_m := (capacity_m s3)(this := c)\<rparr>
      in Ret () s4)"

text \<open>\<^verbatim>\<open>RawMemory(RawMemory&& other) noexcept\<close>\<close>

definition RawMemory_move_ctor :: "obj \<Rightarrow> obj \<Rightarrow> 'a state \<Rightarrow> (unit, 'a state) res" where
  "RawMemory_move_ctor this other = noexcept (bnd (RawMemory_default this) (\<lambda>_. steal this other))"

text \<open>\<^verbatim>\<open>RawMemory& operator=(RawMemory&& rhs) noexcept\<close>\<close>

definition RawMemory_move_assign :: "obj \<Rightarrow> obj \<Rightarrow> 'a state \<Rightarrow> (unit, 'a state) res" where
  "RawMemory_move_assign this rhs =
     noexcept (bnd (\<lambda>s. Deallocate (buffer_m s this) s) (\<lambda>_. steal this rhs))"

text \<open>\<^verbatim>\<open>~RawMemory()\<close>\<close>

definition RawMemory_dtor :: "obj \<Rightarrow> 'a state \<Rightarrow> (unit, 'a state) res" where
  "RawMemory_dtor this s = Deallocate (buffer_m s this) s"

text \<open>\<^verbatim>\<open>T* operator+(size_t offset) noexcept\<close>\<close>

definition RawMemory_plus :: "obj \<Rightarrow> nat \<Rightarrow> 'a state \<Rightarrow> (ptr, 'a state) res" where
  "RawMemory_plus this offset s =
     (if offset \<le> capacity_m s this then Ret (buffer_m s this, offset) s else Fault UB)"

text \<open>\<^verbatim>\<open>T& operator[](size_t index) noexcept\<close>: the reference is the pointer to the slot.\<close>

definition RawMemory_index :: "obj \<Rightarrow> nat \<Rightarrow> 'a state \<Rightarrow> (ptr, 'a state) res" where
  "RawMemory_index this index s =
     (if index < capacity_m s this then Ret (buffer_m s this, index) s else Fault UB)"

text \<open>\<^verbatim>\<open>void Swap(RawMemory& other) noexcept\<close>\<close>

definition RawMemory_Swap :: "obj \<Rightarrow> obj \<Rightarrow> 'a state \<Rightarrow> (unit, 'a state) res" where
  "RawMemory_Swap this other s =
     (let b = buffer_m s this; b' = buffer_m s other;
          s1 = s\<lparr>buffer_m := ((buffer_m s)(this := b'))(other := b)\<rparr>;
          c = capacity_m s1 this; c' = capacity_m s1 other
      in Ret () (s1\<lparr>capacity_m := ((capacity_m s1)(this := c'))(other := c)\<rparr>))"

definition GetAddress :: "obj \<Rightarrow> 'a state \<Rightarrow> (ptr, 'a state) res" where
  "GetAddress this s = Ret (buffer_m s this, 0) s"

definition RawMemory_Capacity :: "obj \<Rightarrow> 'a state \<Rightarrow> (nat, 'a state) res" where
  "RawMemory_Capacity this s = Ret (capacity_m s this) s"

section \<open>class Vector\<close>

definition Vector_begin :: "obj \<Rightarrow> 'a state \<Rightarrow> (ptr, 'a state) res" where
  "Vector_begin this = GetAddress this"

definition Vector_end :: "obj \<Rightarrow> 'a state \<Rightarrow> (ptr, 'a state) res" where
  "Vector_end this s = RawMemory_plus this (size_m s this) s"

definition Destroy :: "ptr \<Rightarrow> 'a state \<Rightarrow> (unit, 'a state) res" where
  "Destroy buf = noexcept (destroy_at buf)"

text \<open>\<^verbatim>\<open>for (size_t i = 0; i != n; ++i) Destroy(buf + i);\<close>\<close>

primrec DestroyN_loop :: "ptr \<Rightarrow> nat \<Rightarrow> nat \<Rightarrow> 'a state \<Rightarrow> (unit, 'a state) res" where
  "DestroyN_loop buf i 0 = ret ()"
| "DestroyN_loop buf i (Suc n) = bnd (Destroy (ptr_add buf i)) (\<lambda>_. DestroyN_loop buf (Suc i) n)"

definition DestroyN :: "ptr \<Rightarrow> nat \<Rightarrow> 'a state \<Rightarrow> (unit, 'a state) res" where
  "DestroyN buf n = noexcept (DestroyN_loop buf 0 n)"

definition Size :: "obj \<Rightarrow> 'a state \<Rightarrow> (nat, 'a state) res" where
  "Size this s = Ret (size_m s this) s"

definition Capacity :: "obj \<Rightarrow> 'a state \<Rightarrow> (nat, 'a state) res" where
  "Capacity this = RawMemory_Capacity this"

text \<open>\<^verbatim>\<open>T& operator[](size_t index) noexcept\<close>\<close>

definition Vector_index :: "obj \<Rightarrow> nat \<Rightarrow> 'a state \<Rightarrow> (ptr, 'a state) res" where
  "Vector_index this index s =
     (if index < size_m s this then RawMemory_index this index s else Fault UB)"

text \<open>\<^verbatim>\<open>Vector() = default\<close>\<close>

definition Vector_default :: "obj \<Rightarrow> 'a state \<Rightarrow> (unit, 'a state) res" where
  "Vector_default this =
     bnd (RawMemory_default this) (\<lambda>_ s. Ret () (s\<lparr>size_m := (size_m s)(this := 0)\<rparr>))"

text \<open>
  \<^verbatim>\<open>explicit Vector(size_t size)\<close>. When the body of a constructor throws, the members
  already built are destroyed: \<^verbatim>\<open>~RawMemory()\<close> releases the block.
\<close>

definition Vector_sized :: "'a env \<Rightarrow> obj \<Rightarrow> nat \<Rightarrow> 'a state \<Rightarrow> (unit, 'a state) res" where
  "Vector_sized E this sz =
     bnd (RawMemory_ctor E this sz) (\<lambda>_.
     bnd (\<lambda>s. Ret () (s\<lparr>size_m := (size_m s)(this := sz)\<rparr>)) (\<lambda>_.
     try_catch_rethrow
       (bnd (GetAddress this) (\<lambda>p. uninitialized_value_construct_n E p sz))
       (RawMemory_dtor this)))"

text \<open>\<^verbatim>\<open>Vector(const Vector& other)\<close>\<close>

definition Vector_copy :: "'a env \<Rightarrow> obj \<Rightarrow> obj \<Rightarrow> 'a state \<Rightarrow> (unit, 'a state) res" where
  "Vector_copy E this other =
     bnd (\<lambda>s. RawMemory_ctor E this (size_m s other) s) (\<lambda>_.
     bnd (\<lambda>s. Ret () (s\<lparr>size_m := (size_m s)(this := size_m s other)\<rparr>)) (\<lambda>_.
     try_catch_rethrow
       (bnd (GetAddress other) (\<lambda>src. bnd (GetAddress this) (\<lambda>dst s.
          uninitialized_copy_n E src (size_m s other) dst s)))
       (RawMemory_dtor this)))"

text \<open>\<^verbatim>\<open>size_ = std::exchange(other.size_, 0);\<close>\<close>

definition steal_size :: "obj \<Rightarrow> obj \<Rightarrow> 'a state \<Rightarrow> (unit, 'a state) res" where
  "steal_size this other s =
     (let n = size_m s other;
          s1 = s\<lparr>size_m := (size_m s)(other := 0)\<rparr>
      in Ret () (s1\<lparr>size_m := (size_m s1)(this := n)\<rparr>))"

text \<open>\<^verbatim>\<open>Vector(Vector&& other) noexcept\<close>\<close>

definition Vector_move :: "'a env \<Rightarrow> obj \<Rightarrow> obj \<Rightarrow> 'a state \<Rightarrow> (unit, 'a state) res" where
  "Vector_move E this other =
     noexcept
      (bnd (\<lambda>s. RawMemory_ctor E this (size_m s other) s) (\<lambda>_.
       bnd (\<lambda>s. Ret () (s\<lparr>size_m := (size_m s)(this := size_m s other)\<rparr>)) (\<lambda>_.
       bnd (RawMemory_move_assign this other) (\<lambda>_.
       steal_size this other))))"

text \<open>\<^verbatim>\<open>~Vector()\<close>, followed by the destructor of the member \<^verbatim>\<open>data_\<close>.\<close>

definition Vector_dtor :: "obj \<Rightarrow> 'a state \<Rightarrow> (unit, 'a state) res" where
  "Vector_dtor this =
     bnd (GetAddress this) (\<lambda>p. bnd (\<lambda>s. DestroyN p (size_m s this) s) (\<lambda>_. RawMemory_dtor this))"

text \<open>\<^verbatim>\<open>void Swap(Vector& other) noexcept\<close>\<close>

definition Swap :: "obj \<Rightarrow> obj \<Rightarrow> 'a state \<Rightarrow> (unit, 'a state) res" where
  "Swap this other =
     bnd (RawMemory_Swap this other) (\<lambda>_ s.
       (let n = size_m s this; n' = size_m s other
        in Ret () (s\<lparr>size_m := ((size_m s)(this := n'))(other := n)\<rparr>)))"

text \<open>\<^verbatim>\<open>for (size_t i = 0; i < n; ++i) data_[i] = rhs[i];\<close>\<close>

primrec assign_loop :: "'a env \<Rightarrow> obj \<Rightarrow> obj \<Rightarrow> nat \<Rightarrow> nat \<Rightarrow> 'a state \<Rightarrow> (unit, 'a state) res" where
  "assign_loop E this rhs i 0 = ret ()"
| "assign_loop E this rhs i (Suc n) =
     bnd (Vector_index rhs i) (\<lambda>src. bnd (RawMemory_index this i) (\<lambda>dst.
     bnd (copy_assign E dst src) (\<lambda>_. assign_loop E this rhs (Suc i) n)))"

text \<open>\<^verbatim>\<open>Vector& operator=(const Vector& rhs)\<close>\<close>

definition Vector_copy_assign :: "'a env \<Rightarrow> obj \<Rightarrow> obj \<Rightarrow> 'a state \<Rightarrow> (unit, 'a state) res" where
  "Vector_copy_assign E this rhs s =
     (if this \<noteq> rhs then
        (if size_m s rhs > capacity_m s this then
           bnd (Vector_copy E Local rhs) (\<lambda>_. scope (Swap this Local) (Vector_dtor Local)) s
         else if size_m s rhs < size_m s this then
           bnd (assign_loop E this rhs 0 (size_m s rhs)) (\<lambda>_.
           bnd (\<lambda>s. RawMemory_plus this (size_m s rhs) s) (\<lambda>p.
           bnd (\<lambda>s. DestroyN p (size_m s this - size_m s rhs) s) (\<lambda>_ s.
           Ret () (s\<lparr>size_m := (size_m s)(this := size_m s rhs)\<rparr>)))) s
         else
           bnd (assign_loop E this rhs 0 (size_m s this)) (\<lambda>_.
           bnd (\<lambda>s. RawMemory_plus rhs (size_m s this) s) (\<lambda>src.
           bnd (GetAddress this) (\<lambda>dst.
           bnd (\<lambda>s. uninitialized_copy_n E src (size_m s rhs - size_m s this) dst s) (\<lambda>_ s.
           Ret () (s\<lparr>size_m := (size_m s)(this := size_m s rhs)\<rparr>))))) s)
      else Ret () s)"

text \<open>\<^verbatim>\<open>Vector& operator=(Vector&& rhs) noexcept\<close>\<close>

definition Vector_move_assign :: "obj \<Rightarrow> obj \<Rightarrow> 'a state \<Rightarrow> (unit, 'a state) res" where
  "Vector_move_assign this rhs =
     noexcept (bnd (RawMemory_move_assign this rhs) (\<lambda>_. steal_size this rhs))"

text \<open>The test of both \<^verbatim>\<open>if constexpr\<close>: elements migrate by move, else by copy.\<close>

definition migrate_by_move :: "'a env \<Rightarrow> bool" where
  "migrate_by_move E = (is_nothrow_move_constructible E \<or> \<not> is_copy_constructible E)"

text \<open>\<^verbatim>\<open>void Reserve(size_t new_capacity)\<close>, with the automatic \<^verbatim>\<open>new_data\<close> at \<open>Local\<close>.\<close>

definition Reserve :: "'a env \<Rightarrow> obj \<Rightarrow> nat \<Rightarrow> 'a state \<Rightarrow> (unit, 'a state) res" where
  "Reserve E this new_capacity s =
     (if new_capacity \<le> capacity_m s this then Ret () s
      else
        bnd (RawMemory_ctor E Local new_capacity) (\<lambda>_.
        scope
          (bnd (GetAddress this) (\<lambda>src. bnd (GetAddress Local) (\<lambda>dst.
           bnd (\<lambda>s. if migrate_by_move E then uninitialized_move_n E src (size_m s this) dst s
                     else uninitialized_copy_n E src (size_m s this) dst s) (\<lambda>_.
           bnd (\<lambda>s. destroy_n src (size_m s this) s) (\<lambda>_.
           RawMemory_Swap this Local)))))
          (RawMemory_dtor Local)) s)"

text \<open>\<^verbatim>\<open>void Resize(size_t new_size)\<close>\<close>

definition Resize :: "'a env \<Rightarrow> obj \<Rightarrow> nat \<Rightarrow> 'a state \<Rightarrow> (unit, 'a state) res" where
  "Resize E this new_size =
     bnd (\<lambda>s. if new_size < size_m s this then
                 bnd (RawMemory_plus this new_size) (\<lambda>p s. DestroyN p (size_m s this - new_size) s) s
               else if new_size > size_m s this then
                 bnd (Reserve E this new_size) (\<lambda>_.
                 bnd (\<lambda>s. RawMemory_plus this (size_m s this) s) (\<lambda>p s.
                 uninitialized_value_construct_n E p (new_size - size_m s this) s)) s
               else Ret () s)
         (\<lambda>_ s. Ret () (s\<lparr>size_m := (size_m s)(this := new_size)\<rparr>))"

text \<open>\<^verbatim>\<open>++size_;\<close> and \<^verbatim>\<open>--size_;\<close>\<close>

definition inc_size :: "obj \<Rightarrow> 'a state \<Rightarrow> (unit, 'a state) res" where
  "inc_size this s = Ret () (s\<lparr>size_m := (size_m s)(this := size_add (size_m s this) 1)\<rparr>)"

definition dec_size :: "obj \<Rightarrow> 'a state \<Rightarrow> (unit, 'a state) res" where
  "dec_size this s = Ret () (s\<lparr>size_m := (size_m s)(this := size_sub (size_m s this) 1)\<rparr>)"

text \<open>
  \<^verbatim>\<open>void TryInitMove(int delta, RawMemory<T>& new_data)\<close> and
  \<^verbatim>\<open>void TryInitCopy(int delta, RawMemory<T>& new_data)\<close>. The parameter is an \<^verbatim>\<open>int\<close>:
  as the count of the first \<^verbatim>\<open>std::uninitialized_*_n\<close> it runs the loop \<open>nat delta\<close>
  times (not at all when negative); in \<^verbatim>\<open>new_data + delta\<close>, \<^verbatim>\<open>data_ + delta\<close> and
  \<^verbatim>\<open>size_ - delta\<close> it is converted to \<^verbatim>\<open>size_t\<close>; \<^verbatim>\<open>delta + 1\<close> is computed in \<^verbatim>\<open>int\<close>, where
  an overflow is undefined behaviour, and then converted.
\<close>

definition int_succ :: "int \<Rightarrow> 's \<Rightarrow> (int, 's) res" where
  "int_succ i s = (if i = 2 ^ 31 - 1 then Fault UB else Ret (i + 1) s)"

definition TryInitMove :: "'a env \<Rightarrow> obj \<Rightarrow> int \<Rightarrow> obj \<Rightarrow> 'a state \<Rightarrow> (unit, 'a state) res" where
  "TryInitMove E this delta new_data =
     bnd (try_catch_rethrow
            (bnd (GetAddress this) (\<lambda>src. bnd (GetAddress new_data) (\<lambda>dst.
               uninitialized_move_n E src (nat delta) dst)))
            (bnd (RawMemory_plus new_data (to_size_t delta)) Destroy)) (\<lambda>_.
     try_catch_rethrow
       (bnd (RawMemory_plus this (to_size_t delta)) (\<lambda>src.
        bnd (RawMemory_plus new_data (to_size_t delta)) (\<lambda>dst s.
          uninitialized_move_n E src (size_sub (size_m s this) (to_size_t delta)) (ptr_add dst 1) s)))
       (bnd (GetAddress new_data) (\<lambda>p. bnd (int_succ delta) (\<lambda>n. DestroyN p (to_size_t n)))))"

definition TryInitCopy :: "'a env \<Rightarrow> obj \<Rightarrow> int \<Rightarrow> obj \<Rightarrow> 'a state \<Rightarrow> (unit, 'a state) res" where
  "TryInitCopy E this delta new_data =
     bnd (try_catch_rethrow
            (bnd (GetAddress this) (\<lambda>src. bnd (GetAddress new_data) (\<lambda>dst.
               uninitialized_copy_n E src (nat delta) dst)))
            (bnd (RawMemory_plus new_data (to_size_t delta)) Destroy)) (\<lambda>_.
     try_catch_rethrow
       (bnd (RawMemory_plus this (to_size_t delta)) (\<lambda>src.
        bnd (RawMemory_plus new_data (to_size_t delta)) (\<lambda>dst s.
          uninitialized_copy_n E src (size_sub (size_m s this) (to_size_t delta)) (ptr_add dst 1) s)))
       (bnd (GetAddress new_data) (\<lambda>p. bnd (int_succ delta) (\<lambda>n. DestroyN p (to_size_t n)))))"

text \<open>
  \<^verbatim>\<open>iterator Emplace(const_iterator pos, Args&&... args)\<close>. The arguments are given as the
  kind \<open>k\<close> of constructor they select and the value \<open>v\<close> it builds, so \<^verbatim>\<open>Insert(pos, value)\<close>
  is \<open>Emplace\<close> with the copy constructor. \<open>delta\<close> is the \<^verbatim>\<open>ptrdiff_t\<close> offset of \<open>pos\<close>; the
  calls of \<^verbatim>\<open>TryInitMove\<close> and \<^verbatim>\<open>TryInitCopy\<close> narrow it to \<^verbatim>\<open>int\<close>.
\<close>

definition Emplace :: "'a env \<Rightarrow> obj \<Rightarrow> ptr \<Rightarrow> elem_op \<Rightarrow> 'a \<Rightarrow> 'a state \<Rightarrow> (ptr, 'a state) res" where
  "Emplace E this pos k v =
     bnd (Vector_begin this) (\<lambda>b. bnd (ptr_diff pos b) (\<lambda>delta.
     bnd (\<lambda>s.
       if size_m s this = capacity_m s this then
         bnd (RawMemory_ctor E Local (if size_m s this = 0 then 1 else size_mul (size_m s this) 2)) (\<lambda>_.
         scope
           (bnd (RawMemory_plus Local delta) (\<lambda>p. bnd (construct_at E k p v) (\<lambda>_.
            bnd (if migrate_by_move E then TryInitMove E this (to_int delta) Local
                 else TryInitCopy E this (to_int delta) Local) (\<lambda>_.
            bnd (GetAddress this) (\<lambda>old. bnd (\<lambda>s. destroy_n old (size_m s this) s) (\<lambda>_.
            RawMemory_move_assign this Local))))))
           (RawMemory_dtor Local)) s
       else if size_m s this = 0 then
         bnd (Vector_begin this) (\<lambda>p. construct_at E k p v) s
       else
         bnd (make_temp E k v) (\<lambda>tmp.
         bnd (Vector_end this) (\<lambda>e. bnd (ptr_sub e 1) (\<lambda>l.
         bnd (move_construct E e l) (\<lambda>_.
         bnd (Vector_begin this) (\<lambda>b.
         bnd (move_backward E (ptr_add b delta) l e) (\<lambda>_.
         bnd (RawMemory_index this delta) (\<lambda>d. assign_at E MoveAssign d tmp))))))) s)
     (\<lambda>_. bnd (inc_size this) (\<lambda>_. bnd (Vector_begin this) (\<lambda>b. ret (ptr_add b delta))))))"

text \<open>\<^verbatim>\<open>iterator Insert(const_iterator pos, const T& value)\<close> and
  \<^verbatim>\<open>iterator Insert(const_iterator pos, T&& value)\<close>\<close>

definition Insert :: "'a env \<Rightarrow> obj \<Rightarrow> ptr \<Rightarrow> 'a \<Rightarrow> 'a state \<Rightarrow> (ptr, 'a state) res" where
  "Insert E this pos val = Emplace E this pos CopyCtor val"

definition Insert_move :: "'a env \<Rightarrow> obj \<Rightarrow> ptr \<Rightarrow> 'a \<Rightarrow> 'a state \<Rightarrow> (ptr, 'a state) res" where
  "Insert_move E this pos val = Emplace E this pos MoveCtor val"

text \<open>\<^verbatim>\<open>void PushBack(const T& value)\<close> and \<^verbatim>\<open>void PushBack(T&& value)\<close>\<close>

definition PushBack_kind :: "'a env \<Rightarrow> elem_op \<Rightarrow> obj \<Rightarrow> 'a \<Rightarrow> 'a state \<Rightarrow> (unit, 'a state) res" where
  "PushBack_kind E k this val s =
     (if size_m s this = capacity_m s this then
        bnd (Vector_begin this) (\<lambda>b s. bnd (Emplace E this (ptr_add b (size_m s this)) k val) (\<lambda>_. ret ()) s) s
      else
        bnd (\<lambda>s. RawMemory_plus this (size_m s this) s) (\<lambda>p.
        bnd (construct_at E k p val) (\<lambda>_. inc_size this)) s)"

definition PushBack :: "'a env \<Rightarrow> obj \<Rightarrow> 'a \<Rightarrow> 'a state \<Rightarrow> (unit, 'a state) res" where
  "PushBack E = PushBack_kind E CopyCtor"

definition PushBack_move :: "'a env \<Rightarrow> obj \<Rightarrow> 'a \<Rightarrow> 'a state \<Rightarrow> (unit, 'a state) res" where
  "PushBack_move E = PushBack_kind E MoveCtor"

text \<open>\<^verbatim>\<open>void PopBack() noexcept\<close>\<close>

definition PopBack :: "obj \<Rightarrow> 'a state \<Rightarrow> (unit, 'a state) res" where
  "PopBack this =
     noexcept (\<lambda>s.
       if size_m s this \<noteq> 0 then
         bnd (RawMemory_plus this (size_m s this - 1)) (\<lambda>p. bnd (Destroy p) (\<lambda>_. dec_size this)) s
       else Ret () s)"

text \<open>\<^verbatim>\<open>T& EmplaceBack(Args&&... args)\<close>\<close>

definition EmplaceBack :: "'a env \<Rightarrow> obj \<Rightarrow> elem_op \<Rightarrow> 'a \<Rightarrow> 'a state \<Rightarrow> (ptr, 'a state) res" where
  "EmplaceBack E this k v s =
     (if size_m s this = capacity_m s this then
        bnd (Vector_begin this) (\<lambda>b s. Emplace E this (ptr_add b (size_m s this)) k v s) s
      else
        bnd (\<lambda>s. RawMemory_plus this (size_m s this) s) (\<lambda>p.
        bnd (construct_at E k p v) (\<lambda>_.
        bnd (inc_size this) (\<lambda>_ s. RawMemory_index this (size_sub (size_m s this) 1) s))) s)"

text \<open>\<^verbatim>\<open>for (size_t i = delta + 1; i < size_; ++i) data_[i - 1] = std::move(data_[i]);\<close>\<close>

primrec erase_loop :: "'a env \<Rightarrow> obj \<Rightarrow> nat \<Rightarrow> nat \<Rightarrow> 'a state \<Rightarrow> (unit, 'a state) res" where
  "erase_loop E this i 0 = ret ()"
| "erase_loop E this i (Suc n) =
     bnd (RawMemory_index this (i - 1)) (\<lambda>dst. bnd (RawMemory_index this i) (\<lambda>src.
     bnd (move_assign E dst src) (\<lambda>_. erase_loop E this (Suc i) n)))"

text \<open>\<^verbatim>\<open>iterator Erase(const_iterator pos) noexcept\<close>\<close>

definition Erase :: "'a env \<Rightarrow> obj \<Rightarrow> ptr \<Rightarrow> 'a state \<Rightarrow> (ptr, 'a state) res" where
  "Erase E this pos =
     noexcept
      (bnd (Vector_begin this) (\<lambda>b. bnd (ptr_diff pos b) (\<lambda>delta.
       bnd (\<lambda>s. erase_loop E this (delta + 1) (size_m s this - (delta + 1)) s) (\<lambda>_.
       bnd (Vector_end this) (\<lambda>e. bnd (ptr_sub e 1) (\<lambda>l. bnd (Destroy l) (\<lambda>_.
       bnd (dec_size this) (\<lambda>_. bnd (Vector_begin this) (\<lambda>b. ret (ptr_add b delta))))))))))"

section \<open>Observations and concrete program states\<close>

text \<open>What a caller can see of the vector at \<open>this\<close>: \<^verbatim>\<open>Size()\<close>, \<^verbatim>\<open>Capacity()\<close> and the
  block its buffer points to (\<open>None\<close> when the buffer is null or the block is released).\<close>

definition view :: "'a state \<Rightarrow> obj \<Rightarrow> nat \<times> nat \<times> 'a option list option" where
  "view s this =
     (size_m s this, capacity_m s this,
      case buffer_m s this of None \<Rightarrow> None | Some a \<Rightarrow> block_at s a)"

definition observe :: "('r, 'a state) res \<Rightarrow> obj \<Rightarrow> ('r, nat \<times> nat \<times> 'a option list option) res" where
  "observe r this =
     (case r of Ret x s \<Rightarrow> Ret x (view s this) | Throw e s \<Rightarrow> Throw e (view s this)
      | Fault w \<Rightarrow> Fault w)"

text \<open>
  The vector at \<open>this\<close> is well formed and holds the elements \<open>xs\<close>: its first
  \<open>length xs\<close> slots are live with these values and the rest of its block is
  uninitialised.
\<close>

definition vec_at :: "'a state \<Rightarrow> obj \<Rightarrow> 'a list \<Rightarrow> bool" where
  "vec_at s this xs =
     (size_m s this = length xs \<and> length xs \<le> capacity_m s this \<and>
      (case buffer_m s this of
         None \<Rightarrow> capacity_m s this = 0
       | Some a \<Rightarrow> block_at s a =
                    Some (map Some xs @ replicate (capacity_m s this - length xs) None)))"

text \<open>An element type like \<^verbatim>\<open>int\<close>: nothing throws, a moved-from object keeps its value,
  an object takes four bytes; and an allocator that never fails.\<close>

definition plain :: "int env" where
  "plain = \<lparr>is_nothrow_move_constructible = True, is_copy_constructible = True,
     throws = (\<lambda>_ _ _. False), moved_from = (\<lambda>v. v), value_init = 0,
     sizeof_T = 4, new_fails = (\<lambda>_ _. False)\<rparr>"

text \<open>An allocator with no memory left.\<close>

definition exhausted :: "int env" where
  "exhausted = plain\<lparr>new_fails := (\<lambda>_ _. True)\<rparr>"

text \<open>
  A program state with two vectors: \<open>Global 0\<close> holds \<open>[1, 2]\<close> with capacity 4 and
  \<open>Global 1\<close> holds \<open>[5, 6, 7]\<close> with capacity 3.
\<close>

definition two_vectors :: "int state" where
  "two_vectors =
     \<lparr>buffer_m = (\<lambda>_. None)(Global 0 := Some 0, Global 1 := Some 1),
      capacity_m = (\<lambda>_. 0)(Global 0 := 4, Global 1 := 3),
      size_m = (\<lambda>_. 0)(Global 0 := 2, Global 1 := 3),
      heap = [Some [Some 1, Some 2, None, None], Some [Some 5, Some 6, Some 7]],
      calls = 0, allocs = 2, leaked = 0\<rparr>"

text \<open>
  The state \<open>s'\<close> after a failed operation shows the vector at \<open>this\<close> as \<open>s\<close> did: same
  size, capacity and buffer, every block that existed still in place with its contents
  (at most one block was added, and it is released again), and no object lost without
  its destructor.
\<close>

definition rolled_back :: "'a state \<Rightarrow> 'a state \<Rightarrow> obj \<Rightarrow> bool" where
  "rolled_back s s' this =
     (size_m s' this = size_m s this \<and> capacity_m s' this = capacity_m s this \<and>
      buffer_m s' this = buffer_m s this \<and>
      (heap s' = heap s \<or> heap s' = heap s @ [None]) \<and> leaked s' = leaked s)"

text \<open>An element type that is copied on migration and whose copy constructor throws when
  it is the operation number \<open>n\<close> of the program, counted from 0.\<close>

definition copy_throws_at :: "nat \<Rightarrow> int env" where
  "copy_throws_at n =
     plain\<lparr>is_nothrow_move_constructible := False,
           throws := (\<lambda>k c v. k = CopyCtor \<and> c = n)\<rparr>"

text \<open>
  The argument of a \<open>PushBack\<close>: an lvalue selects \<^verbatim>\<open>PushBack(const T&)\<close>, an rvalue
  \<^verbatim>\<open>PushBack(T&&)\<close>.
\<close>

datatype 'a arg = Lvalue 'a | Rvalue 'a

fun push :: "'a env \<Rightarrow> obj \<Rightarrow> 'a arg \<Rightarrow> 'a state \<Rightarrow> (unit, 'a state) res" where
  "push E this (Lvalue x) = PushBack E this x"
| "push E this (Rvalue x) = PushBack_move E this x"

text \<open>
  Pushing the elements of a list back one after the other, and the capacities seen at
  the growth events: the capacity after each \<open>PushBack\<close> that changed it.
\<close>

primrec growth_events :: "'a env \<Rightarrow> obj \<Rightarrow> 'a arg list \<Rightarrow> 'a state \<Rightarrow> nat list option" where
  "growth_events E this [] s = Some []"
| "growth_events E this (x # xs) s =
     (case push E this x s of
        Ret _ s' \<Rightarrow>
          map_option (\<lambda>cs. if capacity_m s' this \<noteq> capacity_m s this then capacity_m s' this # cs else cs)
            (growth_events E this xs s')
      | _ \<Rightarrow> None)"

section \<open>Sequences of operations\<close>

text \<open>
  The operations a caller applies to one vector, as a datatype, so that sequences of
  operations can be quantified over. A position is given by its offset from \<open>begin()\<close>;
  the source of an assignment is another object of the program.
\<close>

datatype 'a vop =
    CopyAssignFrom nat | MoveAssignFrom nat
  | DoReserve nat | DoResize nat
  | DoPushBack 'a | DoPushBackMove 'a | DoPopBack
  | DoEmplaceBack 'a | DoEmplace nat 'a | DoInsert nat 'a | DoInsertMove nat 'a
  | DoErase nat

text \<open>Calling \<open>f\<close> at the iterator \<open>begin() + i\<close> and dropping what it returns.\<close>

definition at_offset :: "obj \<Rightarrow> nat \<Rightarrow> (ptr \<Rightarrow> 'a state \<Rightarrow> ('r, 'a state) res) \<Rightarrow> 'a state \<Rightarrow> (unit, 'a state) res" where
  "at_offset this i f = bnd (Vector_begin this) (\<lambda>b. bnd (f (ptr_add b i)) (\<lambda>_. ret ()))"

fun apply_op :: "'a env \<Rightarrow> obj \<Rightarrow> 'a vop \<Rightarrow> 'a state \<Rightarrow> (unit, 'a state) res" where
  "apply_op E this (CopyAssignFrom r) = Vector_copy_assign E this (Global r)"
| "apply_op E this (MoveAssignFrom r) = Vector_move_assign this (Global r)"
| "apply_op E this (DoReserve n) = Reserve E this n"
| "apply_op E this (DoResize n) = Resize E this n"
| "apply_op E this (DoPushBack v) = PushBack E this v"
| "apply_op E this (DoPushBackMove v) = PushBack_move E this v"
| "apply_op E this DoPopBack = PopBack this"
| "apply_op E this (DoEmplaceBack v) = bnd (EmplaceBack E this ArgsCtor v) (\<lambda>_. ret ())"
| "apply_op E this (DoEmplace i v) = at_offset this i (\<lambda>pos. Emplace E this pos ArgsCtor v)"
| "apply_op E this (DoInsert i v) = at_offset this i (\<lambda>pos. Insert E this pos v)"
| "apply_op E this (DoInsertMove i v) = at_offset this i (\<lambda>pos. Insert_move E this pos v)"
| "apply_op E this (DoErase i) = at_offset this i (\<lambda>pos. Erase E this pos)"

text \<open>
  Running a sequence of operations: an exception is caught by the caller, who goes on
  with the next operation; undefined behaviour or termination ends the program.
\<close>

primrec run :: "'a env \<Rightarrow> obj \<Rightarrow> 'a vop list \<Rightarrow> 'a state \<Rightarrow> 'a state option" where
  "run E this [] s = Some s"
| "run E this (c # cs) s =
     (case apply_op E this c s of
        Ret _ s' \<Rightarrow> run E this cs s' | Throw _ s' \<Rightarrow> run E this cs s' | Fault _ \<Rightarrow> None)"

fun is_move_assign :: "'a vop \<Rightarrow> bool" where
  "is_move_assign (MoveAssignFrom r) = True"
| "is_move_assign _ = False"

text \<open>
  \<open>outcomes R f\<close>: whenever \<open>f\<close> returns or throws, the states before and after are
  related by \<open>R\<close>. The three relations used: all capacities stay as they are; the
  capacity of \<open>this\<close> does not fall; the capacity of \<open>this\<close> stays or becomes the one
  the automatic variable had.
\<close>

definition outcomes :: "('a state \<Rightarrow> 'a state \<Rightarrow> bool) \<Rightarrow> ('a state \<Rightarrow> ('r, 'a state) res) \<Rightarrow> bool" where
  "outcomes R f = (\<forall>s. case f s of Ret _ s' \<Rightarrow> R s s' | Throw _ s' \<Rightarrow> R s s' | Fault _ \<Rightarrow> True)"

definition same_capacities :: "'a state \<Rightarrow> 'a state \<Rightarrow> bool" where
  "same_capacities s s' = (capacity_m s' = capacity_m s)"

definition not_below :: "obj \<Rightarrow> 'a state \<Rightarrow> 'a state \<Rightarrow> bool" where
  "not_below this s s' = (capacity_m s this \<le> capacity_m s' this)"

definition takes_local :: "obj \<Rightarrow> 'a state \<Rightarrow> 'a state \<Rightarrow> bool" where
  "takes_local this s s' =
     (capacity_m s' this = capacity_m s this \<or> capacity_m s' this = capacity_m s Local)"

text \<open>
  \<open>returns R f\<close>: whenever \<open>f\<close> returns, the states before and after are related by \<open>R\<close>;
  \<open>throw_keeps f\<close>: whenever \<open>f\<close> throws, all capacities are as before. \<open>same_layout\<close>: the
  members of all objects are the same and the same slots exist (whatever they hold).
\<close>

definition returns :: "('a state \<Rightarrow> 'a state \<Rightarrow> bool) \<Rightarrow> ('a state \<Rightarrow> ('r, 'a state) res) \<Rightarrow> bool" where
  "returns R f = (\<forall>s x s'. f s = Ret x s' \<longrightarrow> R s s')"

definition throw_keeps :: "('a state \<Rightarrow> ('r, 'a state) res) \<Rightarrow> bool" where
  "throw_keeps f = (\<forall>s e s'. f s = Throw e s' \<longrightarrow> capacity_m s' = capacity_m s)"

definition same_layout :: "'a state \<Rightarrow> 'a state \<Rightarrow> bool" where
  "same_layout s s' =
     (capacity_m s' = capacity_m s \<and> size_m s' = size_m s \<and> buffer_m s' = buffer_m s \<and>
      (\<forall>p. (slot s' p = None) = (slot s p = None)))"

section \<open>Evaluation\<close>

lemma size_mul_eval: "size_mul a b = (a * b) mod 18446744073709551616"
  by (simp add: size_mul_def)

lemma size_add_eval: "size_add a b = (a + b) mod 18446744073709551616"
  by (simp add: size_add_def)

lemma size_sub_eval: "size_sub a b = (if b \<le> a then a - b else a + 18446744073709551616 - b)"
  by (simp add: size_sub_def)

lemmas prim_defs = bnd_def ret_def noexcept_def try_catch_rethrow_def scope_def block_at_def slot_def
  set_slot_def ptr_add_def ptr_sub_def ptr_diff_def operator_new_def live_count_def operator_delete_def
  op_throws_def construct_at_def destroy_at_def load_def copy_construct_def move_construct_def
  assign_at_def copy_assign_def move_assign_def uninitialized_copy_n_def uninitialized_move_n_def
  uninitialized_value_construct_n_def move_backward_def make_temp_def
  to_int_def to_size_t_def int_succ_def

lemmas raw_defs = Allocate_def Deallocate_def RawMemory_default_def RawMemory_ctor_def steal_def
  RawMemory_move_ctor_def RawMemory_move_assign_def RawMemory_dtor_def RawMemory_plus_def
  RawMemory_index_def RawMemory_Swap_def GetAddress_def RawMemory_Capacity_def

lemmas vec_defs = Vector_begin_def Vector_end_def Destroy_def DestroyN_def Size_def Capacity_def
  Vector_index_def Vector_default_def Vector_sized_def Vector_copy_def steal_size_def Vector_move_def
  Vector_dtor_def Swap_def Vector_copy_assign_def Vector_move_assign_def migrate_by_move_def
  Reserve_def Resize_def inc_size_def dec_size_def TryInitMove_def TryInitCopy_def Emplace_def
  Insert_def Insert_move_def PushBack_kind_def PushBack_def PushBack_move_def PopBack_def
  EmplaceBack_def Erase_def

text \<open>The loops and lists at a count given as a numeral.\<close>

lemma replicate_numeral: "replicate (numeral k) x = x # replicate (pred_numeral k) x"
  by (simp add: numeral_eq_Suc)

lemma list_update_numeral: "(x # xs)[numeral k := y] = x # xs[pred_numeral k := y]"
  by (simp add: numeral_eq_Suc)

lemma destroy_n_numeral:
  "destroy_n p (numeral k) = bnd (destroy_at p) (\<lambda>_. destroy_n (ptr_add p 1) (pred_numeral k))"
  by (simp add: numeral_eq_Suc)

lemma uninit_loop_numeral:
  "uninit_loop body first i (numeral k) =
     bnd (try_catch_rethrow (body first i) (destroy_n first i))
         (\<lambda>_. uninit_loop body first (Suc i) (pred_numeral k))"
  by (simp add: numeral_eq_Suc)

lemma move_backward_loop_numeral:
  "move_backward_loop E first d_first (numeral k) =
     bnd (move_assign E (ptr_add d_first (pred_numeral k)) (ptr_add first (pred_numeral k)))
         (\<lambda>_. move_backward_loop E first d_first (pred_numeral k))"
  by (simp add: numeral_eq_Suc)

lemma DestroyN_loop_numeral:
  "DestroyN_loop buf i (numeral k) =
     bnd (Destroy (ptr_add buf i)) (\<lambda>_. DestroyN_loop buf (Suc i) (pred_numeral k))"
  by (simp add: numeral_eq_Suc)

lemma assign_loop_numeral:
  "assign_loop E this rhs i (numeral k) =
     bnd (Vector_index rhs i) (\<lambda>src. bnd (RawMemory_index this i) (\<lambda>dst.
     bnd (copy_assign E dst src) (\<lambda>_. assign_loop E this rhs (Suc i) (pred_numeral k))))"
  by (simp add: numeral_eq_Suc)

lemma erase_loop_numeral:
  "erase_loop E this i (numeral k) =
     bnd (RawMemory_index this (i - 1)) (\<lambda>dst. bnd (RawMemory_index this i) (\<lambda>src.
     bnd (move_assign E dst src) (\<lambda>_. erase_loop E this (Suc i) (pred_numeral k))))"
  by (simp add: numeral_eq_Suc)

lemmas loop_numerals = replicate_numeral list_update_numeral destroy_n_numeral uninit_loop_numeral
  move_backward_loop_numeral DestroyN_loop_numeral assign_loop_numeral erase_loop_numeral

lemmas eval_defs = prim_defs size_mul_eval size_add_eval size_sub_eval raw_defs vec_defs view_def observe_def plain_def exhausted_def
  two_vectors_def copy_throws_at_def rolled_back_def Let_def loop_numerals

section \<open>Offsets and sizes in range\<close>



text \<open>The first offset that does not fit: as an \<^verbatim>\<open>int\<close> it is negative, and converted back
  to \<^verbatim>\<open>size_t\<close> it is \<open>2 ^ 64 - 2 ^ 31\<close>.\<close>

lemma to_int_at_limit:
  "to_int (2 ^ 31) = - (2 ^ 31)" "to_size_t (to_int (2 ^ 31)) = 2 ^ 64 - 2 ^ 31"
  by (simp_all add: to_int_def to_size_t_def)











section \<open>Blocks and slots\<close>

lemma block_at_heap_update:
  "block_at (s\<lparr>heap := (heap s)[a := b]\<rparr>) c =
     (if c = a \<and> a < length (heap s) then b else block_at s c)"
  by (simp add: block_at_def)

lemma slot_block:
  "block_at s a = Some blk \<Longrightarrow> slot s (Some a, i) = (if i < length blk then Some (blk ! i) else None)"
  by (simp add: slot_def)

lemma set_slot_block:
  "block_at s a = Some blk \<Longrightarrow> set_slot (Some a, i) x s = s\<lparr>heap := (heap s)[a := Some (blk[i := x])]\<rparr>"
  by (simp add: set_slot_def)

lemma block_at_in_heap: "block_at s a = Some blk \<Longrightarrow> a < length (heap s)"
  by (simp add: block_at_def split: if_splits)

lemma vec_atD_block:
  "vec_at s this xs \<Longrightarrow> buffer_m s this = Some a \<Longrightarrow>
     block_at s a = Some (map Some xs @ replicate (capacity_m s this - length xs) None)"
  by (simp add: vec_at_def)

lemma butlast_block:
  "xs \<noteq> [] \<Longrightarrow> length xs \<le> c \<Longrightarrow>
    (map Some xs @ replicate (c - length xs) None)[length xs - Suc 0 := None]
      = map Some (butlast xs) @ replicate (c - (length xs - Suc 0)) None"
proof (induction xs rule: rev_induct)
  case Nil then show ?case by simp
next
  case (snoc x xs)
  have "c - length xs = Suc (c - Suc (length xs))" using snoc.prems by simp
  then show ?case by (simp add: list_update_append replicate_app_Cons_same)
qed

section \<open>Destruction and the uninitialised-memory algorithms\<close>

lemma heap_same: "block_at s a = Some blk \<Longrightarrow> (heap s)[a := Some blk] = heap s"
  by (cases "a < length (heap s)") (auto simp: block_at_def list_update_same_conv)

lemma heap_put_same: "block_at s a = Some blk \<Longrightarrow> s\<lparr>heap := (heap s)[a := Some blk]\<rparr> = s"
proof -
  assume "block_at s a = Some blk"
  then have "(heap s)[a := Some blk] = heap s"
    by (cases "a < length (heap s)") (auto simp: block_at_def list_update_same_conv)
  then show ?thesis by simp
qed

lemma destroy_n_block:
  "block_at s a = Some blk \<Longrightarrow> i + n \<le> length blk \<Longrightarrow> \<forall>m. i \<le> m \<and> m < i + n \<longrightarrow> blk ! m \<noteq> None \<Longrightarrow>
   destroy_n (Some a, i) n s =
     Ret () (s\<lparr>heap := (heap s)[a := Some (take i blk @ replicate n None @ drop (i + n) blk)]\<rparr>)"
proof (induction n arbitrary: i s blk)
  case 0
  then show ?case by (simp add: ret_def heap_put_same)
next
  case (Suc n)
  from Suc.prems obtain v where v: "blk ! i = Some v" by (cases "blk ! i") auto
  let ?s1 = "s\<lparr>heap := (heap s)[a := Some (blk[i := None])]\<rparr>"
  have inh: "a < length (heap s)" using Suc.prems(1) by (rule block_at_in_heap)
  have step: "destroy_at (Some a, i) s = Ret () ?s1"
    using Suc.prems v by (simp add: destroy_at_def slot_block set_slot_block)
  have b1: "block_at ?s1 a = Some (blk[i := None])" using inh by (simp add: block_at_def)
  have "destroy_n (Some a, Suc i) n ?s1 =
     Ret () (?s1\<lparr>heap := (heap ?s1)[a := Some (take (Suc i) (blk[i := None]) @ replicate n None @ drop (Suc i + n) (blk[i := None]))]\<rparr>)"
    using Suc.prems by (intro Suc.IH[OF b1]) auto
  moreover have "take (Suc i) (blk[i := None]) @ replicate n None @ drop (Suc i + n) (blk[i := None])
      = take i blk @ replicate (Suc n) None @ drop (i + Suc n) blk"
    using Suc.prems(2) by (simp add: take_Suc_conv_app_nth replicate_app_Cons_same)
  ultimately show ?case using step by (simp add: bnd_def ptr_add_def)
qed

lemma destroy_at_cases: "(\<exists>s'. destroy_at p s = Ret () s') \<or> destroy_at p s = Fault UB"
  by (simp add: destroy_at_def split: option.splits)

lemma destroy_n_not_Throw: "destroy_n p n s \<noteq> Throw e s'"
proof (induction n arbitrary: p s)
  case 0
  show ?case by (simp add: ret_def)
next
  case (Suc n)
  show ?case using destroy_at_cases[of p s] Suc[of "(fst p, Suc (snd p))"]
    by (auto simp: bnd_def ptr_add_def)
qed

lemma Destroy_eq: "Destroy p = destroy_at p"
  by (rule ext) (simp add: Destroy_def noexcept_def destroy_at_def split: option.splits)

lemma DestroyN_loop_eq: "DestroyN_loop p i n = destroy_n (ptr_add p i) n"
proof (induction n arbitrary: i)
  case 0 show ?case by simp
next
  case (Suc n)
  show ?case by (simp add: Suc Destroy_eq ptr_add_def)
qed

lemma DestroyN_eq: "DestroyN p n = destroy_n p n"
proof (rule ext)
  fix s :: "'a state"
  show "DestroyN p n s = destroy_n p n s"
  proof (cases "destroy_n p n s")
    case (Throw e s')
    then show ?thesis using destroy_n_not_Throw by blast
  qed (simp_all add: DestroyN_def noexcept_def DestroyN_loop_eq ptr_add_def)
qed

lemma uninit_loop_cases:
  assumes "\<And>m. m < n \<Longrightarrow> (body first (i + m) (S m) = Ret () (S (Suc m)) \<and> P m) \<or>
              (body first (i + m) (S m) = Throw ElemExn (F m) \<and> destroy_n first (i + m) (F m) = Ret () (R m) \<and> Q m)"
  shows "(uninit_loop body first i n (S 0) = Ret () (S n) \<and> (\<forall>m<n. P m)) \<or>
         (\<exists>m<n. uninit_loop body first i n (S 0) = Throw ElemExn (R m) \<and> Q m)"
  using assms
proof (induction n arbitrary: i S P F R Q)
  case 0
  show ?case by (simp add: ret_def)
next
  case (Suc n)
  from Suc.prems[of 0] consider
    (ok) "body first i (S 0) = Ret () (S (Suc 0))" "P 0"
    | (bad) "body first i (S 0) = Throw ElemExn (F 0)" "destroy_n first i (F 0) = Ret () (R 0)" "Q 0"
    by auto
  then show ?case
  proof cases
    case ok
    have "(uninit_loop body first (Suc i) n (S (Suc 0)) = Ret () (S (Suc n)) \<and> (\<forall>m<n. P (Suc m))) \<or>
         (\<exists>m<n. uninit_loop body first (Suc i) n (S (Suc 0)) = Throw ElemExn (R (Suc m)) \<and> Q (Suc m))"
    proof (rule Suc.IH[where i = "Suc i" and S = "\<lambda>m. S (Suc m)" and P = "\<lambda>m. P (Suc m)"
          and F = "\<lambda>m. F (Suc m)" and R = "\<lambda>m. R (Suc m)" and Q = "\<lambda>m. Q (Suc m)"])
      fix m assume "m < n"
      then show "body first (Suc i + m) (S (Suc m)) = Ret () (S (Suc (Suc m))) \<and> P (Suc m) \<or>
         body first (Suc i + m) (S (Suc m)) = Throw ElemExn (F (Suc m)) \<and>
         destroy_n first (Suc i + m) (F (Suc m)) = Ret () (R (Suc m)) \<and> Q (Suc m)"
        using Suc.prems[of "Suc m"] by (simp del: destroy_n.simps)
    qed
    then show ?thesis
    proof
      assume r: "uninit_loop body first (Suc i) n (S (Suc 0)) = Ret () (S (Suc n)) \<and> (\<forall>m<n. P (Suc m))"
      have "\<forall>m<Suc n. P m"
      proof (intro allI impI)
        fix m assume "m < Suc n"
        then show "P m" using ok(2) r by (cases m) auto
      qed
      then show ?thesis using ok(1) r by (simp add: bnd_def try_catch_rethrow_def)
    next
      assume "\<exists>m<n. uninit_loop body first (Suc i) n (S (Suc 0)) = Throw ElemExn (R (Suc m)) \<and> Q (Suc m)"
      then obtain m where "m < n" "uninit_loop body first (Suc i) n (S (Suc 0)) = Throw ElemExn (R (Suc m))" "Q (Suc m)"
        by blast
      then have "Suc m < Suc n \<and> uninit_loop body first i (Suc n) (S 0) = Throw ElemExn (R (Suc m)) \<and> Q (Suc m)"
        using ok(1) by (simp add: bnd_def try_catch_rethrow_def)
      then show ?thesis by blast
    qed
  next
    case bad
    then have "0 < Suc n \<and> uninit_loop body first i (Suc n) (S 0) = Throw ElemExn (R 0) \<and> Q 0"
      by (simp add: bnd_def try_catch_rethrow_def)
    then show ?thesis by blast
  qed
qed


lemma block_at_other_fields [simp]:
  "block_at (s\<lparr>calls := c\<rparr>) = block_at s"
  "block_at (s\<lparr>leaked := l\<rparr>) = block_at s"
  "block_at (s\<lparr>allocs := n\<rparr>) = block_at s"
  "block_at (s\<lparr>size_m := z\<rparr>) = block_at s"
  "block_at (s\<lparr>capacity_m := y\<rparr>) = block_at s"
  "block_at (s\<lparr>buffer_m := x\<rparr>) = block_at s"
  by (simp_all add: block_at_def fun_eq_iff)

lemma seg_update:
  assumes "j + m < length B" "k + m < length A"
  shows "(take j B @ take m (drop k A) @ drop (j + m) B)[j + m := A ! (k + m)]
           = take j B @ take (Suc m) (drop k A) @ drop (Suc (j + m)) B"
proof -
  have l1: "length (take j B) = j" "length (take m (drop k A)) = m" using assms by simp_all
  have d: "drop (j + m) B = B ! (j + m) # drop (Suc (j + m)) B"
    using assms(1) by (simp add: Cons_nth_drop_Suc)
  have t: "take (Suc m) (drop k A) = take m (drop k A) @ [A ! (k + m)]"
    using assms(2) by (simp add: take_Suc_conv_app_nth)
  show ?thesis
    unfolding d t using l1 by (simp add: list_update_append)
qed

lemma seg_nth:
  assumes "j + m < length B" "k + m \<le> length A"
  shows "(take j B @ take m (drop k A) @ drop (j + m) B) ! (j + m) = B ! (j + m)"
proof -
  have l1: "length (take j B) = j" "length (take m (drop k A)) = m" using assms by simp_all
  show ?thesis using l1 assms by (simp add: nth_append)
qed

lemma seg_length:
  assumes "j + m \<le> length B" "k + m \<le> length A"
  shows "length (take j B @ take m (drop k A) @ drop (j + m) B) = length B"
  using assms by simp

lemma seg_clear:
  assumes "j + m \<le> length B" "k + m \<le> length A" "\<forall>i. j \<le> i \<and> i < j + m \<longrightarrow> B ! i = None"
  shows "take j (take j B @ take m (drop k A) @ drop (j + m) B) @ replicate m None @
           drop (j + m) (take j B @ take m (drop k A) @ drop (j + m) B) = B"
proof -
  have l1: "length (take j B) = j" "length (take m (drop k A)) = m" using assms by simp_all
  have "take j B @ replicate m None @ drop (j + m) B = B"
  proof (rule nth_equalityI)
    show "length (take j B @ replicate m None @ drop (j + m) B) = length B" using assms by simp
  next
    fix i assume "i < length (take j B @ replicate m None @ drop (j + m) B)"
    then show "(take j B @ replicate m None @ drop (j + m) B) ! i = B ! i"
      using assms by (auto simp: nth_append)
  qed
  then show ?thesis using l1 by simp
qed

lemma copy_loop:
  assumes A: "block_at s a = Some A" and B: "block_at s b = Some B" and ab: "a \<noteq> b"
    and la: "k + n \<le> length A" and lb: "j + n \<le> length B"
    and live: "\<forall>i. k \<le> i \<and> i < k + n \<longrightarrow> A ! i \<noteq> None"
    and free: "\<forall>i. j \<le> i \<and> i < j + n \<longrightarrow> B ! i = None"
  shows "(uninitialized_copy_n E (Some a, k) n (Some b, j) s =
           Ret () (s\<lparr>heap := (heap s)[b := Some (take j B @ take n (drop k A) @ drop (j + n) B)],
                     calls := calls s + n\<rparr>)
           \<and> (\<forall>m<n. \<not> throws E CopyCtor (calls s + m) (the (A ! (k + m)))))
         \<or> (\<exists>m<n. uninitialized_copy_n E (Some a, k) n (Some b, j) s =
                     Throw ElemExn (s\<lparr>calls := Suc (calls s + m)\<rparr>)
               \<and> (\<exists>v. throws E CopyCtor (calls s + m) v))"
proof -
  define S where "S m = s\<lparr>heap := (heap s)[b := Some (take j B @ take m (drop k A) @ drop (j + m) B)],
                     calls := calls s + m\<rparr>" for m
  define F where "F m = (S m)\<lparr>calls := Suc (calls s + m)\<rparr>" for m
  define R where "R m = s\<lparr>calls := Suc (calls s + m)\<rparr>" for m
  define body where "body = (\<lambda>d i. copy_construct E (ptr_add d i) (ptr_add (Some a, k) i))"
  have inb: "b < length (heap s)" using B by (rule block_at_in_heap)
  have S0: "S 0 = s" using heap_put_same[OF B] by (simp add: S_def)
  have SA: "block_at (S m) a = Some A" for m
    using A ab block_at_in_heap[OF A] by (simp add: S_def block_at_def)
  have SB: "block_at (S m) b = Some (take j B @ take m (drop k A) @ drop (j + m) B)" for m
    using inb by (simp add: S_def block_at_def)
  have step: "(body (Some b, j) (0 + m) (S m) = Ret () (S (Suc m))
          \<and> \<not> throws E CopyCtor (calls s + m) (the (A ! (k + m)))) \<or>
       (body (Some b, j) (0 + m) (S m) = Throw ElemExn (F m) \<and> throws E CopyCtor (calls s + m) (the (A ! (k + m)))
          \<and> destroy_n (Some b, j) (0 + m) (F m) = Ret () (R m))" if m: "m < n" for m
  proof -
    have "A ! (k + m) \<noteq> None" using live[rule_format, of "k + m"] m by simp
    then obtain v where v: "A ! (k + m) = Some v" by (cases "A ! (k + m)") auto
    have ld: "load (Some a, k + m) (S m) = Ret v (S m)"
      using m la v by (simp add: load_def slot_block[OF SA])
    have sl: "slot (S m) (Some b, j + m) = Some None"
      using m la lb free by (simp add: slot_block[OF SB] seg_nth)
    show ?thesis
    proof (cases "op_throws E CopyCtor (S m) v")
      case True
      have FB: "block_at (F m) b = Some (take j B @ take m (drop k A) @ drop (j + m) B)"
        using SB by (simp add: F_def)
      have d1: "destroy_n (Some b, j) m (F m) =
          Ret () ((F m)\<lparr>heap := (heap (F m))[b := Some (take j (take j B @ take m (drop k A) @ drop (j + m) B)
              @ replicate m None @ drop (j + m) (take j B @ take m (drop k A) @ drop (j + m) B))]\<rparr>)"
      proof (rule destroy_n_block[OF FB])
        show "j + m \<le> length (take j B @ take m (drop k A) @ drop (j + m) B)" using m la lb by simp
        show "\<forall>i. j \<le> i \<and> i < j + m \<longrightarrow> (take j B @ take m (drop k A) @ drop (j + m) B) ! i \<noteq> None"
        proof (intro allI impI)
          fix i assume i: "j \<le> i \<and> i < j + m"
          have l1: "length (take j B) = j" "length (take m (drop k A)) = m" using m la lb by simp_all
          have ij: "i - j < m" "\<not> i < j" using i by auto
          have "(take j B @ take m (drop k A) @ drop (j + m) B) ! i = A ! (k + (i - j))"
            using ij l1 m la by (simp add: nth_append)
          moreover have rng: "k \<le> k + (i - j) \<and> k + (i - j) < k + n" using ij m by linarith
          have "A ! (k + (i - j)) \<noteq> None" using live rng by blast
          ultimately show "(take j B @ take m (drop k A) @ drop (j + m) B) ! i \<noteq> None"
            by simp
        qed
      qed
      have d2: "take j (take j B @ take m (drop k A) @ drop (j + m) B)
              @ replicate m None @ drop (j + m) (take j B @ take m (drop k A) @ drop (j + m) B) = B"
        using m la lb free by (intro seg_clear) auto
      have "destroy_n (Some b, j) m (F m) = Ret () ((F m)\<lparr>heap := (heap (F m))[b := Some B]\<rparr>)"
        using d1 by (simp only: d2)
      then have "destroy_n (Some b, j) m (F m) = Ret () (R m)"
        by (simp add: F_def S_def R_def heap_same[OF B])
      moreover have "body (Some b, j) (0 + m) (S m) = Throw ElemExn (F m)"
        using True ld sl by (simp add: body_def copy_construct_def bnd_def ptr_add_def construct_at_def F_def S_def)
      moreover have "throws E CopyCtor (calls s + m) (the (A ! (k + m)))"
        using True v by (simp add: op_throws_def S_def)
      ultimately show ?thesis by simp
    next
      case False
      have "(take j B @ take m (drop k A) @ drop (j + m) B)[j + m := Some v]
           = take j B @ take (Suc m) (drop k A) @ drop (Suc (j + m)) B"
        using seg_update[of j m B k A] m la lb v by simp
      then have "body (Some b, j) (0 + m) (S m) = Ret () (S (Suc m))"
        using False ld sl
        by (simp add: body_def copy_construct_def bnd_def ptr_add_def construct_at_def
            set_slot_block[OF SB]) (simp add: S_def)
      moreover have "\<not> throws E CopyCtor (calls s + m) (the (A ! (k + m)))"
        using False v by (simp add: op_throws_def S_def)
      ultimately show ?thesis by simp
    qed
  qed
  have "(uninit_loop body (Some b, j) 0 n (S 0) = Ret () (S n)
           \<and> (\<forall>m<n. \<not> throws E CopyCtor (calls s + m) (the (A ! (k + m))))) \<or>
         (\<exists>m<n. uninit_loop body (Some b, j) 0 n (S 0) = Throw ElemExn (R m)
             \<and> throws E CopyCtor (calls s + m) (the (A ! (k + m))))"
    by (rule uninit_loop_cases[where F = F]) (use step in blast)
  then show ?thesis
    unfolding uninitialized_copy_n_def body_def[symmetric] S0
    by (auto simp: S_def R_def)
qed


lemma copy_loop_nothrow:
  assumes A: "block_at s a = Some A" and B: "block_at s b = Some B" and ab: "a \<noteq> b"
    and la: "k + n \<le> length A" and lb: "j + n \<le> length B"
    and live: "\<forall>i. k \<le> i \<and> i < k + n \<longrightarrow> A ! i \<noteq> None"
    and free: "\<forall>i. j \<le> i \<and> i < j + n \<longrightarrow> B ! i = None"
    and nothrow: "\<And>c v. \<not> throws E CopyCtor c v"
  shows "uninitialized_copy_n E (Some a, k) n (Some b, j) s =
           Ret () (s\<lparr>heap := (heap s)[b := Some (take j B @ take n (drop k A) @ drop (j + n) B)],
                     calls := calls s + n\<rparr>)"
  using copy_loop[OF A B ab la lb live free, of E] nothrow by auto




section \<open>Migration into a new block\<close>








lemma destroy_n_ThrowD: "destroy_n p n s = Throw e s' \<Longrightarrow> False"
  using destroy_n_not_Throw by blast

lemma Deallocate_ThrowD: "Deallocate p s = Throw e s' \<Longrightarrow> False"
  by (simp add: Deallocate_def noexcept_def split: res.splits)

lemma RawMemory_move_assign_ThrowD: "RawMemory_move_assign this rhs s = Throw e s' \<Longrightarrow> False"
  by (simp add: RawMemory_move_assign_def noexcept_def split: res.splits)

lemma emplace_tail_ThrowD:
  assumes "scope (bnd (GetAddress this) (\<lambda>old. bnd (\<lambda>s. destroy_n old (size_m s this) s) (\<lambda>_.
            RawMemory_move_assign this Local))) (RawMemory_dtor Local) s = Throw e s'"
  shows False
proof -
  have "bnd (GetAddress this) (\<lambda>old. bnd (\<lambda>s. destroy_n old (size_m s this) s) (\<lambda>_.
            RawMemory_move_assign this Local)) s = Throw e1 s1 \<Longrightarrow> False" for e1 s1
    by (auto simp: bnd_def GetAddress_def split: res.splits
        dest: destroy_n_ThrowD RawMemory_move_assign_ThrowD)
  then show ?thesis
    using assms
    by (auto simp: scope_def RawMemory_dtor_def split: res.splits dest: Deallocate_ThrowD)
qed




lemma live_count_replicate_None [simp]: "live_count (replicate n None) = 0"
  by (simp add: live_count_def)










section \<open>Copy assignment into spare capacity\<close>

text \<open>
  C1. Copy assignment from a source that is at least as long as the destination and fits
  the destination's capacity should leave the destination equal to the source. Assigning
  \<open>[5, 6, 7]\<close> to the vector \<open>[1, 2]\<close> of capacity 4 takes that branch: the prefix is
  assigned, giving \<open>[5, 6]\<close>, and then the tail \<open>[7]\<close> is copy-constructed at
  \<^verbatim>\<open>data_.GetAddress()\<close>, slot 0, not at slot 2. The destination ends with size 3 and
  the block \<open>7, 6, uninitialised, uninitialised\<close>.
\<close>

theorem copy_assign_tail_lands_at_front:
  "observe (Vector_copy_assign plain (Global 0) (Global 1) two_vectors) (Global 0)
     = Ret () (3, 4, Some [Some 7, Some 6, None, None])"
  by (simp add: eval_defs)

section \<open>Move construction\<close>

text \<open>
  C3. Move construction should not allocate and cannot fail. The constructor's member
  initialiser \<^verbatim>\<open>data_(other.size_)\<close> allocates a block for three elements before the
  source's block is taken over; with no memory left \<^verbatim>\<open>operator new\<close> throws inside the
  \<^verbatim>\<open>noexcept\<close> constructor and the program is terminated.
\<close>

theorem move_construction_allocates:
  "observe (Vector_move exhausted (Global 2) (Global 1) two_vectors) (Global 2) = Fault Terminated"
  by (simp add: eval_defs)

text \<open>
  With memory available the same construction succeeds after one call of
  \<^verbatim>\<open>operator new\<close> (the third of the program): the new vector has taken over the
  source's block and the source is empty with capacity 0.
\<close>

lemma move_construction_with_memory:
  "(case Vector_move plain (Global 2) (Global 1) two_vectors of
      Ret _ s' \<Rightarrow> Some (allocs s', view s' (Global 2), view s' (Global 1))
    | _ \<Rightarrow> None)
   = Some (3, (3, 3, Some [Some 5, Some 6, Some 7]), (0, 0, None))"
  by (simp add: eval_defs)

section \<open>Move assignment to itself\<close>

text \<open>
  C4. After a move the moved-from vector should have size 0 and capacity 0 and be safe to
  destroy, also when source and destination are the same object. Move-assigning the
  vector \<open>[5, 6, 7]\<close> to itself releases its block and leaves size 3, capacity 3 and a
  buffer that points to the released block.
\<close>

theorem self_move_assign_dangles:
  "observe (Vector_move_assign (Global 1) (Global 1) two_vectors) (Global 1) = Ret () (3, 3, None)"
  by (simp add: eval_defs)

text \<open>
  Destroying the vector afterwards destroys elements in the released block: undefined
  behaviour. Between two different vectors the move leaves the source empty.
\<close>

lemma self_move_assign_then_destroy:
  "observe (bnd (Vector_move_assign (Global 1) (Global 1)) (\<lambda>_. Vector_dtor (Global 1)) two_vectors)
     (Global 1) = Fault UB"
  by (simp add: eval_defs DestroyN_loop.simps)

lemma move_assign_between_two:
  "observe (Vector_move_assign (Global 0) (Global 1) two_vectors) (Global 1) = Ret () (0, 0, None)"
  "observe (Vector_move_assign (Global 0) (Global 1) two_vectors) (Global 0)
     = Ret () (3, 3, Some [Some 5, Some 6, Some 7])"
  by (simp_all add: eval_defs)

section \<open>Emplace at the end with spare capacity\<close>

text \<open>
  C7. \<open>Emplace\<close> at any position of \<open>[begin, end]\<close> should insert the element and keep the
  others in order. At \<open>pos = end()\<close> of the vector \<open>[1, 2]\<close> of capacity 4 the branch for
  spare capacity move-constructs the last element one slot up and then calls
  \<^verbatim>\<open>std::move_backward(begin() + 2, end() - 1, end())\<close>, whose range starts after its
  end: undefined behaviour.
\<close>

theorem emplace_at_end_with_spare_capacity:
  "observe (Emplace plain (Global 0) (Some 0, 2) CopyCtor 99 two_vectors) (Global 0) = Fault UB"
  by (simp add: eval_defs)

text \<open>
  The other cases behave as specified. Inserting 99 at position 1 of the full vector
  \<open>[5, 6, 7]\<close> gives \<open>[5, 99, 6, 7]\<close> with capacity 6 in a new block and returns the
  position of the new element; inserting before \<open>end()\<close> with spare capacity shifts the
  tail.
\<close>

lemma insert_into_full_vector:
  "observe (Insert plain (Global 1) (Some 1, 1) 99 two_vectors) (Global 1)
     = Ret (Some 2, 1) (4, 6, Some [Some 5, Some 99, Some 6, Some 7, None, None])"
  by (simp add: eval_defs)

lemma insert_with_spare_capacity:
  "observe (Insert plain (Global 0) (Some 0, 1) 99 two_vectors) (Global 0)
     = Ret (Some 0, 1) (3, 4, Some [Some 1, Some 99, Some 2, None])"
  by (simp add: eval_defs)

section \<open>PopBack\<close>

lemma pop_back_nonempty:
  assumes "vec_at s this xs" and "xs \<noteq> []"
  shows "\<exists>s'. PopBack this s = Ret () s' \<and> vec_at s' this (butlast xs)
           \<and> capacity_m s' this = capacity_m s this \<and> leaked s' = leaked s"
proof -
  from assms have sz: "size_m s this = length xs" "length xs \<le> capacity_m s this"
    and pos: "Suc 0 \<le> length xs" "length xs - Suc 0 < capacity_m s this"
    by (cases xs; simp add: vec_at_def)+
  then obtain a where a: "buffer_m s this = Some a"
    using assms by (cases "buffer_m s this") (auto simp: vec_at_def)
  note blk = vec_atD_block[OF assms(1) a]
  have inh: "a < length (heap s)" by (rule block_at_in_heap[OF blk])
  have "PopBack this s = Ret ()
          (s\<lparr>heap := (heap s)[a := Some (map Some (butlast xs) @
                 replicate (capacity_m s this - (length xs - Suc 0)) None)],
             size_m := (size_m s)(this := length xs - Suc 0)\<rparr>)"
    using sz pos a blk assms(2)
    by (simp add: PopBack_def noexcept_def bnd_def RawMemory_plus_def Destroy_def destroy_at_def
        slot_block set_slot_block dec_size_def size_sub_def nth_append butlast_block)
  moreover have "vec_at (s\<lparr>heap := (heap s)[a := Some (map Some (butlast xs) @
                 replicate (capacity_m s this - (length xs - Suc 0)) None)],
             size_m := (size_m s)(this := length xs - Suc 0)\<rparr>) this (butlast xs)"
    using sz pos a inh by (simp add: vec_at_def block_at_def)
  ultimately show ?thesis by simp
qed

lemma pop_back_empty: "size_m s this = 0 \<Longrightarrow> PopBack this s = Ret () s"
  by (simp add: PopBack_def noexcept_def)

text \<open>
  C8. \<open>PopBack\<close> on a non-empty vector destroys the last element (its slot becomes
  uninitialised storage, nothing leaks) and decrements the size by one, the capacity
  staying as it is; on an empty vector it returns normally and changes nothing.
\<close>

theorem pop_back_spec:
  assumes "vec_at s this xs"
  shows "(xs \<noteq> [] \<longrightarrow> (\<exists>s'. PopBack this s = Ret () s' \<and> vec_at s' this (butlast xs)
             \<and> size_m s' this = size_m s this - 1
             \<and> capacity_m s' this = capacity_m s this \<and> leaked s' = leaked s))
       \<and> (xs = [] \<longrightarrow> PopBack this s = Ret () s)"
proof (intro conjI impI)
  assume ne: "xs \<noteq> []"
  from pop_back_nonempty[OF assms ne] obtain s' where
    s': "PopBack this s = Ret () s'" "vec_at s' this (butlast xs)"
      "capacity_m s' this = capacity_m s this" "leaked s' = leaked s" by blast
  moreover have "size_m s' this = size_m s this - 1"
    using s'(2) assms by (simp add: vec_at_def)
  ultimately show "\<exists>s'. PopBack this s = Ret () s' \<and> vec_at s' this (butlast xs)
             \<and> size_m s' this = size_m s this - 1
             \<and> capacity_m s' this = capacity_m s this \<and> leaked s' = leaked s" by blast
next
  assume "xs = []"
  then show "PopBack this s = Ret () s"
    using assms by (intro pop_back_empty) (simp add: vec_at_def)
qed

theorem pop_back_spec_witness:
  "vec_at two_vectors (Global 0) [1, 2] \<and>
   (\<exists>s'. PopBack (Global 0) two_vectors = Ret () s' \<and> vec_at s' (Global 0) [1] \<and> size_m s' (Global 0) = 1) \<and>
   vec_at two_vectors (Global 2) [] \<and> PopBack (Global 2) two_vectors = Ret () two_vectors"
proof -
  have a: "vec_at two_vectors (Global 0) [1, 2]" and b: "vec_at two_vectors (Global 2) []"
    by (simp_all add: vec_at_def two_vectors_def block_at_def numeral_2_eq_2)
  have sz: "size_m two_vectors (Global 0) = 2" by (simp add: two_vectors_def)
  show ?thesis
    using a b pop_back_spec[OF a] pop_back_spec[OF b] sz by auto
qed

section \<open>The strong exception guarantee of the copying migration\<close>



section \<open>Growth on insertion at the end\<close>


lemma vec_at_size: "vec_at s this xs \<Longrightarrow> size_m s this = length xs"
  by (simp add: vec_at_def)






lemma vec_at_slot:
  "vec_at s this xs \<Longrightarrow> i < length xs \<Longrightarrow> slot s (buffer_m s this, i) = Some (Some (xs ! i))"
  by (cases "buffer_m s this") (auto simp: vec_at_def slot_def nth_append)



section \<open>The capacities of repeated PushBack\<close>





text \<open>The example of the specification: three pushes grow the capacity to 1, 2 and 4.\<close>

lemma three_pushes_grow_1_2_4:
  "growth_events plain (Global 2) [Lvalue 1, Rvalue 2, Lvalue 3] two_vectors = Some [1, 2, 4]"
  by (simp add: eval_defs)

section \<open>Erase\<close>

lemma erase_loop_shift:
  fixes E :: "'a env"
  assumes bt: "buffer_m s this = Some a" and A: "block_at s a = Some A"
    and len: "d + n < length A" and cap: "d + n < capacity_m s this"
    and live: "\<forall>i. d \<le> i \<and> i \<le> d + n \<longrightarrow> A ! i \<noteq> None"
    and nothrow: "\<And>q w. \<not> throws E MoveAssign q w"
  shows "\<exists>w. erase_loop E this (Suc d) n s =
           Ret () (s\<lparr>heap := (heap s)[a := Some (take d A @ take n (drop (Suc d) A) @ Some w # drop (Suc (d + n)) A)],
                     calls := calls s + n\<rparr>)"
  using bt A len cap live
proof (induction n arbitrary: d s A)
  case 0
  then obtain w where w: "A ! d = Some w" by (cases "A ! d") auto
  have "take d A @ Some w # drop (Suc d) A = A"
    using 0(3) w by (metis add.right_neutral id_take_nth_drop)
  then show ?case using heap_same[OF 0(2)] by (intro exI[of _ w]) (simp add: ret_def)
next
  case (Suc n)
  have "A ! d \<noteq> None" "A ! Suc d \<noteq> None" using Suc.prems(5) by auto
  then obtain u v where u: "A ! d = Some u" and v: "A ! Suc d = Some v" by auto
  define A' where "A' = A[d := Some v, Suc d := Some (moved_from E v)]"
  define s' where "s' = s\<lparr>heap := (heap s)[a := Some A'], calls := calls s + 1\<rparr>"
  have ina: "a < length (heap s)" using Suc.prems(2) by (rule block_at_in_heap)
  have i1: "RawMemory_index this d s = Ret (Some a, d) s"
    and i2: "RawMemory_index this (Suc d) s = Ret (Some a, Suc d) s"
    using Suc.prems by (simp_all add: RawMemory_index_def)
  have mv: "move_assign E (Some a, d) (Some a, Suc d) s = Ret () s'"
    using Suc.prems u v nothrow ina
    by (simp add: bnd_def move_assign_def load_def slot_block[OF Suc.prems(2)]
        assign_at_def op_throws_def set_slot_block[OF Suc.prems(2)] slot_def set_slot_def block_at_def
        s'_def A'_def)
  have b': "buffer_m s' this = Some a" using Suc.prems(1) by (simp add: s'_def)
  have A'b: "block_at s' a = Some A'" using ina by (simp add: s'_def block_at_def)
  have l': "Suc d + n < length A'" "Suc d + n < capacity_m s' this"
    using Suc.prems by (simp_all add: A'_def s'_def)
  have live': "\<forall>i. Suc d \<le> i \<and> i \<le> Suc d + n \<longrightarrow> A' ! i \<noteq> None"
    using Suc.prems(3,5) by (auto simp: A'_def nth_list_update)
  from Suc.IH[OF b' A'b l' live'] obtain w where
    w: "erase_loop E this (Suc (Suc d)) n s' =
           Ret () (s'\<lparr>heap := (heap s')[a := Some (take (Suc d) A' @ take n (drop (Suc (Suc d)) A') @ Some w # drop (Suc (Suc d + n)) A')],
                     calls := calls s' + n\<rparr>)" by blast
  have t1: "take (Suc d) A' = take d A @ [Some v]"
    using Suc.prems(3) by (simp add: A'_def take_Suc_conv_app_nth)
  have t2: "drop (Suc (Suc d)) A' = drop (Suc (Suc d)) A" by (simp add: A'_def)
  have t3: "take (Suc n) (drop (Suc d) A) = Some v # take n (drop (Suc (Suc d)) A)"
    using Suc.prems(3) v by (simp add: Cons_nth_drop_Suc[symmetric, of "Suc d" A])
  have t4: "drop (Suc (Suc d + n)) A' = drop (Suc (d + Suc n)) A" by (simp add: A'_def)
  have "take (Suc d) A' @ take n (drop (Suc (Suc d)) A') @ Some w # drop (Suc (Suc d + n)) A'
      = take d A @ take (Suc n) (drop (Suc d) A) @ Some w # drop (Suc (d + Suc n)) A"
    by (simp only: t1 t2 t3 t4) simp
  then have "erase_loop E this (Suc (Suc d)) n s' =
           Ret () (s\<lparr>heap := (heap s)[a := Some (take d A @ take (Suc n) (drop (Suc d) A) @ Some w # drop (Suc (d + Suc n)) A)],
                     calls := calls s + Suc n\<rparr>)"
    using w by (simp add: s'_def)
  then show ?case
    using i1 i2 mv by (intro exI[of _ w]) (simp add: bnd_def)
qed

lemma erased_block:
  assumes "d < length xs" "length xs \<le> c"
  shows "(take d (map Some xs @ replicate (c - length xs) None) @
          take (length xs - Suc d) (drop (Suc d) (map Some xs @ replicate (c - length xs) None)) @
          Some w # drop (Suc (d + (length xs - Suc d))) (map Some xs @ replicate (c - length xs) None))
         [length xs - 1 := None]
       = map Some (take d xs @ drop (Suc d) xs) @ replicate (c - (length xs - 1)) None"
proof -
  have e: "Suc (d + (length xs - Suc d)) = length xs" using assms by simp
  have l: "length (take d (map Some xs) @ take (length xs - Suc d) (drop (Suc d) (map Some xs))) = length xs - 1"
    using assms by simp
  have r: "replicate (c - (length xs - 1)) (None :: 'a option) = None # replicate (c - length xs) None"
  proof -
    have "c - (length xs - 1) = Suc (c - length xs)" using assms by arith
    then show ?thesis by simp
  qed
  have "(take d (map Some xs) @ take (length xs - Suc d) (drop (Suc d) (map Some xs)) @
          Some w # replicate (c - length xs) None)[length xs - 1 := None]
       = take d (map Some xs) @ take (length xs - Suc d) (drop (Suc d) (map Some xs)) @
          None # replicate (c - length xs) None"
    using l by (metis append.assoc list_update_length)
  then show ?thesis
    using assms e r by (simp add: take_map drop_map)
qed

lemma erase_ok:
  fixes E :: "'a env"
  assumes wf: "vec_at s this xs" and d: "d < length xs"
    and nothrow: "\<And>q w. \<not> throws E MoveAssign q w"
  shows "\<exists>s'. Erase E this (buffer_m s this, d) s = Ret (buffer_m s this, d) s'
           \<and> vec_at s' this (take d xs @ drop (Suc d) xs)
           \<and> buffer_m s' this = buffer_m s this \<and> capacity_m s' this = capacity_m s this"
proof -
  define n where "n = length xs"
  define c where "c = capacity_m s this"
  have sz: "size_m s this = n" and nc: "n \<le> c" using wf by (simp_all add: vec_at_def n_def c_def)
  obtain a where a: "buffer_m s this = Some a"
    using wf d by (cases "buffer_m s this") (auto simp: vec_at_def)
  define A where "A = map Some xs @ replicate (c - length xs) None"
  have sA: "block_at s a = Some A" using wf a by (simp add: vec_at_def A_def c_def)
  have ina: "a < length (heap s)" using sA by (rule block_at_in_heap)
  have dn: "d + (n - Suc d) = n - 1" "Suc (d + (n - Suc d)) = n" "0 < n" using d by (auto simp: n_def)
  have len: "d + (n - Suc d) < length A" using d nc by (simp add: A_def n_def)
  have cap: "d + (n - Suc d) < capacity_m s this" using d nc by (simp add: n_def c_def)
  have live: "\<forall>i. d \<le> i \<and> i \<le> d + (n - Suc d) \<longrightarrow> A ! i \<noteq> None"
  proof (intro allI impI)
    fix i assume "d \<le> i \<and> i \<le> d + (n - Suc d)"
    then have "i < length xs" using d unfolding n_def by arith
    then show "A ! i \<noteq> None" by (simp add: A_def nth_append)
  qed
  from erase_loop_shift[OF a sA len cap live nothrow] obtain w where
    loop: "erase_loop E this (Suc d) (n - Suc d) s =
           Ret () (s\<lparr>heap := (heap s)[a := Some (take d A @ take (n - Suc d) (drop (Suc d) A) @ Some w # drop (Suc (d + (n - Suc d))) A)],
                     calls := calls s + (n - Suc d)\<rparr>)"
    by blast
  define B where "B = take d A @ take (n - Suc d) (drop (Suc d) A) @ Some w # drop (Suc (d + (n - Suc d))) A"
  define s1 where "s1 = s\<lparr>heap := (heap s)[a := Some B], calls := calls s + (n - Suc d)\<rparr>"
  have loop': "erase_loop E this (Suc d) (n - Suc d) s = Ret () s1" using loop by (simp add: s1_def B_def)
  have s1B: "block_at s1 a = Some B" using ina by (simp add: s1_def block_at_def)
  have lB: "length B = length A" "n - 1 < length B" "B ! (n - 1) = Some w"
  proof -
    have l: "length (take d A @ take (n - Suc d) (drop (Suc d) A)) = n - 1"
      using d nc by (simp add: A_def n_def)
    show "length B = length A" using d nc by (simp add: B_def A_def n_def)
    then show "n - 1 < length B" using d nc by (simp add: A_def n_def)
    show "B ! (n - 1) = Some w" unfolding B_def using l by (metis append.assoc nth_append_length)
  qed
  have Bfin: "B[n - 1 := None] = map Some (take d xs @ drop (Suc d) xs) @ replicate (c - (n - 1)) None"
    unfolding B_def A_def n_def using d nc by (intro erased_block) (simp_all add: n_def)
  define s2 where "s2 = s1\<lparr>heap := (heap s1)[a := Some (B[n - 1 := None])], size_m := (size_m s1)(this := n - 1)\<rparr>"
  have s1f: "buffer_m s1 this = Some a" "size_m s1 this = n" "capacity_m s1 this = c"
    using a sz by (simp_all add: s1_def c_def)
  have ve: "Vector_end this s1 = Ret (Some a, n) s1"
    using s1f nc by (simp add: Vector_end_def RawMemory_plus_def)
  have ps: "ptr_sub (Some a, n) 1 s1 = Ret (Some a, n - 1) s1"
    using dn by (simp add: ptr_sub_def)
  have ds: "Destroy (Some a, n - 1) s1 = Ret () (s1\<lparr>heap := (heap s1)[a := Some (B[n - 1 := None])]\<rparr>)"
    using lB by (simp add: Destroy_eq destroy_at_def slot_block[OF s1B] set_slot_block[OF s1B])
  have dc: "dec_size this (s1\<lparr>heap := (heap s1)[a := Some (B[n - 1 := None])]\<rparr>) = Ret () s2"
    using s1f dn by (simp add: dec_size_def size_sub_def s2_def)
  have s2f: "buffer_m s2 this = Some a" using s1f by (simp add: s2_def)
  have "Erase E this (buffer_m s this, d) s = Ret (Some a, d) s2"
    using a sz loop' ve ps ds dc s2f
    by (simp add: Erase_def noexcept_def Vector_begin_def ptr_diff_def
        bnd_def ret_def ptr_add_def GetAddress_def)
  moreover have "vec_at s2 this (take d xs @ drop (Suc d) xs)"
    using a ina d nc Bfin sz
    by (simp add: vec_at_def s2_def s1_def block_at_def n_def c_def)
  ultimately show ?thesis using a by (simp add: s2_def s1_def)
qed

text \<open>
  C9. \<open>Erase(pos)\<close> on a non-empty vector, with \<open>pos\<close> in \<open>[begin, end)\<close>, returns the
  iterator \<open>begin() + (pos - begin())\<close>: the position of the erased element. After the
  call it refers to the element that followed the erased one, or is \<open>end()\<close> when the
  last element was erased. (The move assignment of the element type does not throw:
  otherwise the \<^verbatim>\<open>noexcept\<close> function terminates the program.)
\<close>

theorem erase_returns_position:
  fixes E :: "'a env"
  assumes "vec_at s this xs" and "d < length xs"
    and "\<And>q w. \<not> throws E MoveAssign q w"
  shows "\<exists>p s'. Erase E this (buffer_m s this, d) s = Ret p s'
           \<and> p = (buffer_m s' this, d)
           \<and> vec_at s' this (take d xs @ drop (Suc d) xs)
           \<and> (Suc d < length xs \<longrightarrow> slot s' p = Some (Some (xs ! Suc d)))
           \<and> (Suc d = length xs \<longrightarrow> Vector_end this s' = Ret p s')"
proof -
  from erase_ok[OF assms] obtain s' where
    s': "Erase E this (buffer_m s this, d) s = Ret (buffer_m s this, d) s'"
      "vec_at s' this (take d xs @ drop (Suc d) xs)"
      "buffer_m s' this = buffer_m s this" "capacity_m s' this = capacity_m s this" by blast
  have sz': "size_m s' this = length xs - 1" "length xs - 1 \<le> capacity_m s' this"
    using s'(2) assms(2) by (simp_all add: vec_at_def)
  have "slot s' (buffer_m s' this, d) = Some (Some (xs ! Suc d))" if "Suc d < length xs"
    using vec_at_slot[OF s'(2), of d] that by (simp add: nth_append)
  moreover have "Vector_end this s' = Ret (buffer_m s' this, d) s'" if "Suc d = length xs"
    using sz' that by (auto simp: Vector_end_def RawMemory_plus_def)
  ultimately show ?thesis using s' by simp
qed

theorem erase_returns_position_witness:
  "vec_at two_vectors (Global 1) [5, 6, 7] \<and> (1 :: nat) < length [5, 6, 7 :: int] \<and>
   (\<exists>p s'. Erase plain (Global 1) (buffer_m two_vectors (Global 1), 1) two_vectors = Ret p s'
       \<and> p = (buffer_m s' (Global 1), 1) \<and> vec_at s' (Global 1) [5, 7]
       \<and> slot s' p = Some (Some 7)) \<and>
   (2 :: nat) < length [5, 6, 7 :: int] \<and>
   (\<exists>p s'. Erase plain (Global 1) (buffer_m two_vectors (Global 1), 2) two_vectors = Ret p s'
       \<and> p = (buffer_m s' (Global 1), 2) \<and> vec_at s' (Global 1) [5, 6]
       \<and> Vector_end (Global 1) s' = Ret p s')"
proof -
  have a: "vec_at two_vectors (Global 1) [5, 6, 7]"
    by (simp add: vec_at_def two_vectors_def block_at_def numeral_3_eq_3)
  have t: "\<And>q w. \<not> throws plain MoveAssign q w" by (simp add: plain_def)
  have d1: "(1 :: nat) < length [5, 6, 7 :: int]" and d2: "(2 :: nat) < length [5, 6, 7 :: int]"
    by simp_all
  show ?thesis
    using a erase_returns_position[OF a d1 t] erase_returns_position[OF a d2 t]
    by (simp add: numeral_2_eq_2)
qed

section \<open>Capacity across operations\<close>

lemma outcomesI:
  "(\<And>s x s'. f s = Ret x s' \<Longrightarrow> R s s') \<Longrightarrow> (\<And>s e s'. f s = Throw e s' \<Longrightarrow> R s s') \<Longrightarrow> outcomes R f"
  by (auto simp: outcomes_def split: res.splits)

lemma outcomes_Ret: "outcomes R f \<Longrightarrow> f s = Ret x s' \<Longrightarrow> R s s'"
  by (auto simp: outcomes_def split: res.splits dest: spec[of _ s])

lemma outcomes_Throw: "outcomes R f \<Longrightarrow> f s = Throw e s' \<Longrightarrow> R s s'"
  by (auto simp: outcomes_def split: res.splits dest: spec[of _ s])

lemma keep_bnd:
  assumes "outcomes same_capacities m" and "\<And>x. outcomes same_capacities (f x)"
  shows "outcomes same_capacities (bnd m f)"
proof (rule outcomesI)
  fix s x s' assume "bnd m f s = Ret x s'"
  then obtain y s1 where "m s = Ret y s1" "f y s1 = Ret x s'"
    by (auto simp: bnd_def split: res.splits)
  then show "same_capacities s s'"
    using outcomes_Ret[OF assms(1)] outcomes_Ret[OF assms(2)] by (fastforce simp: same_capacities_def)
next
  fix s e s' assume "bnd m f s = Throw e s'"
  then consider "m s = Throw e s'" | y s1 where "m s = Ret y s1" "f y s1 = Throw e s'"
    by (auto simp: bnd_def split: res.splits)
  then show "same_capacities s s'"
  proof cases
    case 1 then show ?thesis using outcomes_Throw[OF assms(1)] by blast
  next
    case 2 then show ?thesis
      using outcomes_Ret[OF assms(1)] outcomes_Throw[OF assms(2)] by (fastforce simp: same_capacities_def)
  qed
qed

lemma keep_dep: "(\<And>a. outcomes same_capacities (f a)) \<Longrightarrow> outcomes same_capacities (\<lambda>s. f (g s) s)"
  by (auto simp: outcomes_def)

lemma keep_if:
  "outcomes same_capacities f \<Longrightarrow> outcomes same_capacities g \<Longrightarrow> outcomes same_capacities (\<lambda>s. if c s then f s else g s)"
  by (auto simp: outcomes_def)

lemma keep_ret: "outcomes same_capacities (ret x)"
  by (simp add: outcomes_def ret_def same_capacities_def)

lemma keep_noexcept: "outcomes same_capacities m \<Longrightarrow> outcomes same_capacities (noexcept m)"
  by (auto simp: outcomes_def noexcept_def split: res.splits dest: spec)

lemma keep_try:
  assumes "outcomes same_capacities m" and "outcomes same_capacities h"
  shows "outcomes same_capacities (try_catch_rethrow m h)"
proof (rule outcomesI)
  fix s x s' assume "try_catch_rethrow m h s = Ret x s'"
  then have "m s = Ret x s'" by (auto simp: try_catch_rethrow_def split: res.splits)
  then show "same_capacities s s'" using outcomes_Ret[OF assms(1)] by blast
next
  fix s e s' assume "try_catch_rethrow m h s = Throw e s'"
  then obtain e1 s1 where "m s = Throw e1 s1" "(\<exists>u. h s1 = Ret u s') \<or> h s1 = Throw e s'"
    by (auto simp: try_catch_rethrow_def split: res.splits)
  then show "same_capacities s s'"
    using outcomes_Throw[OF assms(1)] outcomes_Ret[OF assms(2)] outcomes_Throw[OF assms(2)]
    by (fastforce simp: same_capacities_def)
qed

lemma keep_scope:
  assumes "outcomes same_capacities m" and "outcomes same_capacities d"
  shows "outcomes same_capacities (scope m d)"
proof (rule outcomesI)
  fix s x s' assume "scope m d s = Ret x s'"
  then obtain s1 u where "m s = Ret x s1" "d s1 = Ret u s'"
    by (auto simp: scope_def split: res.splits)
  then show "same_capacities s s'"
    using outcomes_Ret[OF assms(1)] outcomes_Ret[OF assms(2)] by (fastforce simp: same_capacities_def)
next
  fix s e s' assume "scope m d s = Throw e s'"
  then consider x s1 where "m s = Ret x s1" "d s1 = Throw e s'"
    | e1 s1 u where "m s = Throw e1 s1" "d s1 = Ret u s'"
    by (auto simp: scope_def split: res.splits)
  then show "same_capacities s s'"
  proof cases
    case 1 then show ?thesis
      using outcomes_Ret[OF assms(1)] outcomes_Throw[OF assms(2)] by (fastforce simp: same_capacities_def)
  next
    case 2 then show ?thesis
      using outcomes_Throw[OF assms(1)] outcomes_Ret[OF assms(2)] by (fastforce simp: same_capacities_def)
  qed
qed

lemma set_slot_capacity [simp]: "capacity_m (set_slot p x s) = capacity_m s"
  by (simp add: set_slot_def split: option.splits)

lemma keep_prims:
  "outcomes same_capacities (construct_at E k p v)"
  "outcomes same_capacities (destroy_at p)"
  "outcomes same_capacities (load p)"
  "outcomes same_capacities (assign_at E k p v)"
  "outcomes same_capacities (make_temp E k v)"
  "outcomes same_capacities (ptr_sub p n)"
  "outcomes same_capacities (ptr_diff p q)"
  "outcomes same_capacities (operator_delete buf)"
  "outcomes same_capacities (RawMemory_plus this n)"
  "outcomes same_capacities (RawMemory_index this n)"
  "outcomes same_capacities (GetAddress this)"
  "outcomes same_capacities (inc_size this)"
  "outcomes same_capacities (dec_size this)"
  "outcomes same_capacities (\<lambda>s. Ret x (set_slot p y s))"
  "outcomes same_capacities (\<lambda>s. Ret x (if b then s else set_slot p y s))"
  "outcomes same_capacities (\<lambda>s. Ret x (s\<lparr>size_m := z s\<rparr>))"
  "outcomes same_capacities (int_succ i)"
  by (simp_all add: outcomes_def same_capacities_def construct_at_def destroy_at_def load_def assign_at_def
      make_temp_def ptr_sub_def ptr_diff_def operator_delete_def RawMemory_plus_def RawMemory_index_def
      GetAddress_def inc_size_def dec_size_def int_succ_def split: option.splits)

lemma keep_copy_construct: "outcomes same_capacities (copy_construct E dst src)"
  unfolding copy_construct_def by (intro keep_bnd keep_prims)

lemma keep_move_construct: "outcomes same_capacities (move_construct E dst src)"
  unfolding move_construct_def by (intro keep_bnd keep_prims)

lemma keep_copy_assign: "outcomes same_capacities (copy_assign E dst src)"
  unfolding copy_assign_def by (intro keep_bnd keep_prims)

lemma keep_move_assign: "outcomes same_capacities (move_assign E dst src)"
  unfolding move_assign_def by (intro keep_bnd keep_prims)

lemma keep_Destroy: "outcomes same_capacities (Destroy p)"
  unfolding Destroy_def by (intro keep_noexcept keep_prims)

lemma keep_Deallocate: "outcomes same_capacities (Deallocate buf)"
  unfolding Deallocate_def by (intro keep_noexcept keep_prims)

lemma keep_RawMemory_dtor: "outcomes same_capacities (RawMemory_dtor this)"
  using keep_dep[where f = Deallocate and g = "\<lambda>s. buffer_m s this", OF keep_Deallocate]
  by (simp add: RawMemory_dtor_def[abs_def])

lemma keep_Vector_begin: "outcomes same_capacities (Vector_begin this)"
  unfolding Vector_begin_def by (rule keep_prims)

lemma keep_Vector_end: "outcomes same_capacities (Vector_end this)"
  by (simp add: outcomes_def Vector_end_def RawMemory_plus_def same_capacities_def)

lemma keep_Vector_index: "outcomes same_capacities (Vector_index this n)"
  by (simp add: outcomes_def Vector_index_def RawMemory_index_def same_capacities_def)

lemma keep_destroy_n: "outcomes same_capacities (destroy_n p n)"
proof (induction n arbitrary: p)
  case 0 show ?case by (simp add: keep_ret)
next
  case (Suc n) show ?case unfolding destroy_n.simps by (intro keep_bnd keep_prims Suc)
qed

lemma keep_DestroyN: "outcomes same_capacities (DestroyN p n)"
  by (simp add: DestroyN_eq keep_destroy_n)

lemma keep_uninit_loop:
  assumes "\<And>d i. outcomes same_capacities (body d i)"
  shows "outcomes same_capacities (uninit_loop body first i n)"
proof (induction n arbitrary: i)
  case 0 show ?case by (simp add: keep_ret)
next
  case (Suc n) show ?case unfolding uninit_loop.simps
    by (intro keep_bnd keep_try keep_destroy_n assms Suc)
qed

lemma keep_uninit:
  "outcomes same_capacities (uninitialized_copy_n E src n dst)"
  "outcomes same_capacities (uninitialized_move_n E src n dst)"
  "outcomes same_capacities (uninitialized_value_construct_n E dst n)"
  unfolding uninitialized_copy_n_def uninitialized_move_n_def uninitialized_value_construct_n_def
  by (intro keep_uninit_loop keep_copy_construct keep_move_construct keep_prims)+

lemma keep_move_backward_loop: "outcomes same_capacities (move_backward_loop E f d n)"
proof (induction n)
  case 0 show ?case by (simp add: keep_ret)
next
  case (Suc n) show ?case unfolding move_backward_loop.simps by (intro keep_bnd keep_move_assign Suc)
qed

lemma keep_move_backward: "outcomes same_capacities (move_backward E first lst d_last)"
  using keep_move_backward_loop[of E] by (simp add: outcomes_def move_backward_def)

lemma keep_assign_loop: "outcomes same_capacities (assign_loop E this rhs i n)"
proof (induction n arbitrary: i)
  case 0 show ?case by (simp add: keep_ret)
next
  case (Suc n) show ?case unfolding assign_loop.simps
    by (intro keep_bnd keep_Vector_index keep_prims keep_copy_assign Suc)
qed

lemma keep_erase_loop: "outcomes same_capacities (erase_loop E this i n)"
proof (induction n arbitrary: i)
  case 0 show ?case by (simp add: keep_ret)
next
  case (Suc n) show ?case unfolding erase_loop.simps
    by (intro keep_bnd keep_prims keep_move_assign Suc)
qed

lemma keep_TryInitCopy: "outcomes same_capacities (TryInitCopy E this d new)"
  unfolding TryInitCopy_def
proof -
  have dep: "outcomes same_capacities
      (\<lambda>s. uninitialized_copy_n E src (size_sub (size_m s this) (to_size_t d)) dst s)" for src dst
    using keep_uninit(1)[of E src _ dst] by (simp add: outcomes_def)
  show "outcomes same_capacities
     (bnd (try_catch_rethrow
            (bnd (GetAddress this) (\<lambda>src. bnd (GetAddress new) (\<lambda>dst.
               uninitialized_copy_n E src (nat d) dst)))
            (bnd (RawMemory_plus new (to_size_t d)) Destroy)) (\<lambda>_.
     try_catch_rethrow
       (bnd (RawMemory_plus this (to_size_t d)) (\<lambda>src.
        bnd (RawMemory_plus new (to_size_t d)) (\<lambda>dst s.
          uninitialized_copy_n E src (size_sub (size_m s this) (to_size_t d)) (ptr_add dst 1) s)))
       (bnd (GetAddress new) (\<lambda>p. bnd (int_succ d) (\<lambda>n. DestroyN p (to_size_t n))))))"
    by (intro keep_bnd keep_try keep_prims keep_uninit keep_DestroyN keep_Destroy dep)
qed

lemma keep_TryInitMove: "outcomes same_capacities (TryInitMove E this d new)"
  unfolding TryInitMove_def
proof -
  have dep: "outcomes same_capacities
      (\<lambda>s. uninitialized_move_n E src (size_sub (size_m s this) (to_size_t d)) dst s)" for src dst
    using keep_uninit(2)[of E src _ dst] by (simp add: outcomes_def)
  show "outcomes same_capacities
     (bnd (try_catch_rethrow
            (bnd (GetAddress this) (\<lambda>src. bnd (GetAddress new) (\<lambda>dst.
               uninitialized_move_n E src (nat d) dst)))
            (bnd (RawMemory_plus new (to_size_t d)) Destroy)) (\<lambda>_.
     try_catch_rethrow
       (bnd (RawMemory_plus this (to_size_t d)) (\<lambda>src.
        bnd (RawMemory_plus new (to_size_t d)) (\<lambda>dst s.
          uninitialized_move_n E src (size_sub (size_m s this) (to_size_t d)) (ptr_add dst 1) s)))
       (bnd (GetAddress new) (\<lambda>p. bnd (int_succ d) (\<lambda>n. DestroyN p (to_size_t n))))))"
    by (intro keep_bnd keep_try keep_prims keep_uninit keep_DestroyN keep_Destroy dep)
qed

lemma keep_Ret: "outcomes same_capacities (Ret x)"
  by (simp add: outcomes_def same_capacities_def)

lemma nb_keep: "outcomes same_capacities f \<Longrightarrow> outcomes (not_below this) f"
  by (auto simp: outcomes_def same_capacities_def not_below_def split: res.splits dest: spec)

lemma nb_bnd:
  assumes "outcomes (not_below this) m" and "\<And>x. outcomes (not_below this) (f x)"
  shows "outcomes (not_below this) (bnd m f)"
proof (rule outcomesI)
  fix s x s' assume "bnd m f s = Ret x s'"
  then obtain y s1 where "m s = Ret y s1" "f y s1 = Ret x s'"
    by (auto simp: bnd_def split: res.splits)
  then show "not_below this s s'"
    using outcomes_Ret[OF assms(1)] outcomes_Ret[OF assms(2)] by (fastforce simp: not_below_def)
next
  fix s e s' assume "bnd m f s = Throw e s'"
  then consider "m s = Throw e s'" | y s1 where "m s = Ret y s1" "f y s1 = Throw e s'"
    by (auto simp: bnd_def split: res.splits)
  then show "not_below this s s'"
  proof cases
    case 1 then show ?thesis using outcomes_Throw[OF assms(1)] by blast
  next
    case 2 then show ?thesis
      using outcomes_Ret[OF assms(1)] outcomes_Throw[OF assms(2)] by (fastforce simp: not_below_def)
  qed
qed

lemma nb_if:
  "outcomes (not_below this) f \<Longrightarrow> outcomes (not_below this) g \<Longrightarrow>
   outcomes (not_below this) (\<lambda>s. if c s then f s else g s)"
  by (auto simp: outcomes_def)

lemma nb_dep: "(\<And>a. outcomes (not_below this) (f a)) \<Longrightarrow> outcomes (not_below this) (\<lambda>s. f (g s) s)"
  by (auto simp: outcomes_def)

lemma tl_keep: "outcomes same_capacities f \<Longrightarrow> outcomes (takes_local this) f"
  by (auto simp: outcomes_def same_capacities_def takes_local_def split: res.splits dest: spec)

lemma tl_bnd_keep:
  assumes "outcomes same_capacities m" and "\<And>x. outcomes (takes_local this) (f x)"
  shows "outcomes (takes_local this) (bnd m f)"
proof (rule outcomesI)
  fix s x s' assume "bnd m f s = Ret x s'"
  then obtain y s1 where "m s = Ret y s1" "f y s1 = Ret x s'"
    by (auto simp: bnd_def split: res.splits)
  then show "takes_local this s s'"
    using outcomes_Ret[OF assms(1)] outcomes_Ret[OF assms(2)]
    by (fastforce simp: takes_local_def same_capacities_def)
next
  fix s e s' assume "bnd m f s = Throw e s'"
  then consider "m s = Throw e s'" | y s1 where "m s = Ret y s1" "f y s1 = Throw e s'"
    by (auto simp: bnd_def split: res.splits)
  then show "takes_local this s s'"
  proof cases
    case 1 then show ?thesis using outcomes_Throw[OF assms(1)]
      by (fastforce simp: takes_local_def same_capacities_def)
  next
    case 2 then show ?thesis
      using outcomes_Ret[OF assms(1)] outcomes_Throw[OF assms(2)]
      by (fastforce simp: takes_local_def same_capacities_def)
  qed
qed

lemma tl_scope_keep:
  assumes "outcomes (takes_local this) m" and "outcomes same_capacities d"
  shows "outcomes (takes_local this) (scope m d)"
proof (rule outcomesI)
  fix s x s' assume "scope m d s = Ret x s'"
  then obtain s1 u where "m s = Ret x s1" "d s1 = Ret u s'"
    by (auto simp: scope_def split: res.splits)
  then show "takes_local this s s'"
    using outcomes_Ret[OF assms(1)] outcomes_Ret[OF assms(2)]
    by (fastforce simp: takes_local_def same_capacities_def)
next
  fix s e s' assume "scope m d s = Throw e s'"
  then consider x s1 where "m s = Ret x s1" "d s1 = Throw e s'"
    | e1 s1 u where "m s = Throw e1 s1" "d s1 = Ret u s'"
    by (auto simp: scope_def split: res.splits)
  then show "takes_local this s s'"
  proof cases
    case 1 then show ?thesis
      using outcomes_Ret[OF assms(1)] outcomes_Throw[OF assms(2)]
      by (fastforce simp: takes_local_def same_capacities_def)
  next
    case 2 then show ?thesis
      using outcomes_Throw[OF assms(1)] outcomes_Ret[OF assms(2)]
      by (fastforce simp: takes_local_def same_capacities_def)
  qed
qed

lemma tl_last:
  "outcomes (takes_local this) (RawMemory_Swap this Local)"
  "outcomes (takes_local this) (RawMemory_move_assign this Local)"
  "outcomes (takes_local this) (Swap this Local)"
  by (auto simp: outcomes_def takes_local_def RawMemory_Swap_def RawMemory_move_assign_def Swap_def
      noexcept_def bnd_def Deallocate_def operator_delete_def steal_def Let_def
      split: res.splits option.splits)

lemma ctor_outcome:
  "RawMemory_ctor E this c s = Ret x s1 \<Longrightarrow> capacity_m s1 = (capacity_m s)(this := c)"
  "RawMemory_ctor E this c s = Throw e s1 \<Longrightarrow> capacity_m s1 = capacity_m s"
  by (auto simp: RawMemory_ctor_def Allocate_def operator_new_def bnd_def ret_def split: if_splits)

text \<open>
  A growing \<open>Emplace\<close> that returns has put the old elements and the new one into the
  new block, so the new capacity is not below the old size, whatever \<^verbatim>\<open>size_ * 2\<close> came
  to; one that throws did so before the buffers changed hands.
\<close>

lemma bnd_RetD: "bnd m f s = Ret x s' \<Longrightarrow> \<exists>y s1. m s = Ret y s1 \<and> f y s1 = Ret x s'"
  by (auto simp: bnd_def split: res.splits)

lemma try_RetD: "try_catch_rethrow m h s = Ret x s' \<Longrightarrow> m s = Ret x s'"
  by (auto simp: try_catch_rethrow_def split: res.splits)

lemma scope_RetD: "scope m d s = Ret x s' \<Longrightarrow> \<exists>s1. m s = Ret x s1"
  by (auto simp: scope_def split: res.splits)

lemma returnsD: "returns R f \<Longrightarrow> f s = Ret x s' \<Longrightarrow> R s s'"
  by (auto simp: returns_def)

lemma same_layout_trans: "same_layout a b \<Longrightarrow> same_layout b c \<Longrightarrow> same_layout a c"
  by (simp add: same_layout_def)

lemma same_layout_slot:
  assumes "same_layout s s'" and "slot s' p \<noteq> None"
  shows "slot s p \<noteq> None"
proof -
  from assms(1) have "\<forall>p. (slot s' p = None) = (slot s p = None)"
    unfolding same_layout_def by (elim conjE)
  then have "(slot s' p = None) = (slot s p = None)" by (rule spec)
  then show ?thesis using assms(2) by blast
qed

lemma same_layout_members:
  "same_layout s s' \<Longrightarrow> capacity_m s' = capacity_m s \<and> size_m s' = size_m s \<and> buffer_m s' = buffer_m s"
  by (simp add: same_layout_def)

lemma lay_bnd:
  assumes "returns same_layout m" and "\<And>x. returns same_layout (f x)"
  shows "returns same_layout (bnd m f)"
  unfolding returns_def
proof (intro allI impI)
  fix s x s' assume "bnd m f s = Ret x s'"
  then obtain y s1 where "m s = Ret y s1" "f y s1 = Ret x s'" by (auto dest: bnd_RetD)
  then show "same_layout s s'"
    using returnsD[OF assms(1)] returnsD[OF assms(2)] same_layout_trans by blast
qed

lemma lay_try: "returns same_layout m \<Longrightarrow> returns same_layout (try_catch_rethrow m h)"
  by (auto simp: returns_def dest: try_RetD)

lemma slot_set_slot: "(slot (set_slot p x s) q = None) = (slot s q = None)"
  by (auto simp: slot_def set_slot_def block_at_def nth_list_update split: option.splits if_splits)

lemma slot_other_fields [simp]:
  "slot (s\<lparr>calls := c\<rparr>) = slot s"
  "slot (s\<lparr>leaked := l\<rparr>) = slot s"
  by (simp_all add: slot_def fun_eq_iff cong: option.case_cong)

lemma set_slot_members [simp]:
  "size_m (set_slot p x s) = size_m s" "buffer_m (set_slot p x s) = buffer_m s"
  by (simp_all add: set_slot_def split: option.splits)

lemma lay_prims:
  "returns same_layout (construct_at E k p v)"
  "returns same_layout (load p)"
  "returns same_layout (GetAddress this)"
  "returns same_layout (RawMemory_plus this n)"
  "returns same_layout (\<lambda>s. Ret x (set_slot p y s))"
  by (auto simp: returns_def same_layout_def construct_at_def load_def GetAddress_def RawMemory_plus_def
      slot_set_slot split: option.splits if_splits)

lemma lay_copy_construct: "returns same_layout (copy_construct E dst src)"
  unfolding copy_construct_def by (intro lay_bnd lay_prims)

lemma lay_move_construct: "returns same_layout (move_construct E dst src)"
  unfolding move_construct_def by (intro lay_bnd lay_prims)

lemma lay_uninit_loop:
  assumes "\<And>d i. returns same_layout (body d i)"
  shows "returns same_layout (uninit_loop body first i n)"
proof (induction n arbitrary: i)
  case 0
  show ?case by (simp add: returns_def ret_def same_layout_def)
next
  case (Suc n)
  show ?case unfolding uninit_loop.simps by (intro lay_bnd lay_try assms Suc)
qed

lemma lay_uninit:
  "returns same_layout (uninitialized_copy_n E src n dst)"
  "returns same_layout (uninitialized_move_n E src n dst)"
  unfolding uninitialized_copy_n_def uninitialized_move_n_def
  by (intro lay_uninit_loop lay_copy_construct lay_move_construct)+

lemma uninit_loop_Suc_RetD:
  assumes "uninit_loop body first i (Suc n) s = Ret x s'"
  shows "\<exists>s1. body first i s = Ret () s1 \<and> uninit_loop body first (Suc i) n s1 = Ret x s'"
proof -
  from assms have "bnd (try_catch_rethrow (body first i) (destroy_n first i))
         (\<lambda>_. uninit_loop body first (Suc i) n) s = Ret x s'" by simp
  then obtain y s1 where "try_catch_rethrow (body first i) (destroy_n first i) s = Ret y s1"
    "uninit_loop body first (Suc i) n s1 = Ret x s'" by (blast dest: bnd_RetD)
  then show ?thesis using try_RetD by fastforce
qed

lemma uninit_loop_Ret_last:
  assumes fr: "\<And>d i. returns same_layout (body d i)"
    and inb: "\<And>d i s x s'. body d i s = Ret x s' \<Longrightarrow> slot s (ptr_add d i) \<noteq> None"
  shows "uninit_loop body first i (Suc n) s = Ret x s' \<Longrightarrow> slot s (ptr_add first (i + n)) \<noteq> None"
proof (induction n arbitrary: i s)
  case 0
  from uninit_loop_Suc_RetD[OF 0] obtain s1 where "body first i s = Ret () s1" by blast
  then show ?case using inb by simp
next
  case (Suc n)
  from uninit_loop_Suc_RetD[OF Suc.prems] obtain s1 where b: "body first i s = Ret () s1"
    and rest: "uninit_loop body first (Suc i) (Suc n) s1 = Ret x s'" by blast
  from Suc.IH[OF rest] have "slot s1 (ptr_add first (Suc i + n)) \<noteq> None" .
  moreover have "same_layout s s1" using returnsD[OF fr b] .
  ultimately have "slot s (ptr_add first (Suc i + n)) \<noteq> None" by (rule same_layout_slot[rotated])
  then show ?case by simp
qed

lemma construct_Ret_slot: "construct_at E k p v s = Ret x s' \<Longrightarrow> slot s p \<noteq> None"
  by (auto simp: construct_at_def split: option.splits)

lemma load_Ret_same: "load p s = Ret v s' \<Longrightarrow> s' = s"
  by (auto simp: load_def split: option.splits)

lemma copy_n_Ret_last:
  assumes "uninitialized_copy_n E src (Suc n) dst s = Ret x s'"
  shows "slot s (ptr_add dst n) \<noteq> None"
proof -
  have "slot s (ptr_add dst (0 + n)) \<noteq> None"
  proof (rule uninit_loop_Ret_last[where body = "\<lambda>d i. copy_construct E (ptr_add d i) (ptr_add src i)"])
    show "returns same_layout (copy_construct E (ptr_add d i) (ptr_add src i))" for d i
      by (rule lay_copy_construct)
    show "slot t (ptr_add d i) \<noteq> None"
      if "copy_construct E (ptr_add d i) (ptr_add src i) t = Ret y t'" for d i t y t'
      using that by (auto simp: copy_construct_def dest!: bnd_RetD dest: load_Ret_same construct_Ret_slot)
    show "uninit_loop (\<lambda>d i. copy_construct E (ptr_add d i) (ptr_add src i)) dst 0 (Suc n) s = Ret x s'"
      using assms by (simp add: uninitialized_copy_n_def)
  qed
  then show ?thesis by simp
qed

lemma move_n_Ret_last:
  assumes "uninitialized_move_n E src (Suc n) dst s = Ret x s'"
  shows "slot s (ptr_add dst n) \<noteq> None"
proof -
  have "slot s (ptr_add dst (0 + n)) \<noteq> None"
  proof (rule uninit_loop_Ret_last[where body = "\<lambda>d i. move_construct E (ptr_add d i) (ptr_add src i)"])
    show "returns same_layout (move_construct E (ptr_add d i) (ptr_add src i))" for d i
      by (rule lay_move_construct)
    show "slot t (ptr_add d i) \<noteq> None"
      if "move_construct E (ptr_add d i) (ptr_add src i) t = Ret y t'" for d i t y t'
      using that by (auto simp: move_construct_def dest!: bnd_RetD dest: load_Ret_same construct_Ret_slot)
    show "uninit_loop (\<lambda>d i. move_construct E (ptr_add d i) (ptr_add src i)) dst 0 (Suc n) s = Ret x s'"
      using assms by (simp add: uninitialized_move_n_def)
  qed
  then show ?thesis by simp
qed

lemma plus_RetD:
  "RawMemory_plus this n s = Ret p s' \<Longrightarrow> s' = s \<and> p = (buffer_m s this, n) \<and> n \<le> capacity_m s this"
  by (auto simp: RawMemory_plus_def split: if_splits)

lemma suffix_fits:
  assumes loop: "\<And>n. n = size_sub (size_m s this) k \<Longrightarrow>
       (\<And>m. n = Suc m \<Longrightarrow> slot s (buffer_m s new, Suc k + m) \<noteq> None)"
    and k: "k \<le> capacity_m s new"
  shows "size_m s this \<le> capacity_m s new \<or> slot s (buffer_m s new, size_m s this) \<noteq> None"
proof (cases "size_m s this \<le> k")
  case True
  then show ?thesis using k by simp
next
  case False
  then obtain m where m: "size_sub (size_m s this) k = Suc m" "Suc k + m = size_m s this"
    by (cases "size_m s this - k") (auto simp: size_sub_def)
  from loop[OF refl m(1)] show ?thesis using m(2) by simp
qed

lemma TryInitCopy_Ret_fits:
  assumes "TryInitCopy E this nd new s = Ret x s'"
  shows "size_m s this \<le> capacity_m s new \<or> slot s (buffer_m s new, size_m s this) \<noteq> None"
proof -
  let ?k = "to_size_t nd"
  let ?first = "bnd (GetAddress this) (\<lambda>src. bnd (GetAddress new) (\<lambda>dst.
               uninitialized_copy_n E src (nat nd) dst))"
  let ?second = "bnd (RawMemory_plus this ?k) (\<lambda>src. bnd (RawMemory_plus new ?k) (\<lambda>dst s.
          uninitialized_copy_n E src (size_sub (size_m s this) ?k) (ptr_add dst 1) s))"
  let ?h1 = "bnd (RawMemory_plus new ?k) Destroy"
  let ?h2 = "bnd (GetAddress new) (\<lambda>p. bnd (int_succ nd) (\<lambda>n. DestroyN p (to_size_t n)))"
  from assms have "bnd (try_catch_rethrow ?first ?h1) (\<lambda>_. try_catch_rethrow ?second ?h2) s = Ret x s'"
    by (simp add: TryInitCopy_def)
  then obtain y s1 where a: "try_catch_rethrow ?first ?h1 s = Ret y s1"
    and b: "try_catch_rethrow ?second ?h2 s1 = Ret x s'" by (blast dest: bnd_RetD)
  have first: "?first s = Ret y s1" by (rule try_RetD[OF a])
  have second: "?second s1 = Ret x s'" by (rule try_RetD[OF b])
  have "returns same_layout ?first" by (intro lay_bnd lay_prims lay_uninit)
  then have lay: "same_layout s s1" using first by (rule returnsD)
  from bnd_RetD[OF second] obtain src t1 where p1: "RawMemory_plus this ?k s1 = Ret src t1"
    and r1: "bnd (RawMemory_plus new ?k) (\<lambda>dst s.
          uninitialized_copy_n E src (size_sub (size_m s this) ?k) (ptr_add dst 1) s) t1 = Ret x s'"
    by blast
  from plus_RetD[OF p1] have t1: "t1 = s1" by simp
  from bnd_RetD[OF r1] obtain dst t2 where p2: "RawMemory_plus new ?k t1 = Ret dst t2"
    and lp0: "uninitialized_copy_n E src (size_sub (size_m t2 this) ?k) (ptr_add dst 1) t2 = Ret x s'"
    by blast
  from plus_RetD[OF p2] t1 have t2: "t2 = s1" "dst = (buffer_m s1 new, ?k)"
    and k: "?k \<le> capacity_m s1 new" by simp_all
  have lp: "uninitialized_copy_n E src (size_sub (size_m s1 this) ?k) (buffer_m s1 new, Suc ?k) s1 = Ret x s'"
    using lp0 t2 by (simp add: ptr_add_def)
  have "size_m s1 this \<le> capacity_m s1 new \<or> slot s1 (buffer_m s1 new, size_m s1 this) \<noteq> None"
  proof (rule suffix_fits[OF _ k])
    fix n m assume "n = size_sub (size_m s1 this) ?k" "n = Suc m"
    then have "uninitialized_copy_n E src (Suc m) (buffer_m s1 new, Suc ?k) s1 = Ret x s'"
      using lp by simp
    from copy_n_Ret_last[OF this] show "slot s1 (buffer_m s1 new, Suc ?k + m) \<noteq> None"
      by (simp add: ptr_add_def)
  qed
  then show ?thesis
    using same_layout_members[OF lay] same_layout_slot[OF lay, of "(buffer_m s new, size_m s this)"]
    by auto
qed

lemma TryInitMove_Ret_fits:
  assumes "TryInitMove E this nd new s = Ret x s'"
  shows "size_m s this \<le> capacity_m s new \<or> slot s (buffer_m s new, size_m s this) \<noteq> None"
proof -
  let ?k = "to_size_t nd"
  let ?first = "bnd (GetAddress this) (\<lambda>src. bnd (GetAddress new) (\<lambda>dst.
               uninitialized_move_n E src (nat nd) dst))"
  let ?second = "bnd (RawMemory_plus this ?k) (\<lambda>src. bnd (RawMemory_plus new ?k) (\<lambda>dst s.
          uninitialized_move_n E src (size_sub (size_m s this) ?k) (ptr_add dst 1) s))"
  let ?h1 = "bnd (RawMemory_plus new ?k) Destroy"
  let ?h2 = "bnd (GetAddress new) (\<lambda>p. bnd (int_succ nd) (\<lambda>n. DestroyN p (to_size_t n)))"
  from assms have "bnd (try_catch_rethrow ?first ?h1) (\<lambda>_. try_catch_rethrow ?second ?h2) s = Ret x s'"
    by (simp add: TryInitMove_def)
  then obtain y s1 where a: "try_catch_rethrow ?first ?h1 s = Ret y s1"
    and b: "try_catch_rethrow ?second ?h2 s1 = Ret x s'" by (blast dest: bnd_RetD)
  have first: "?first s = Ret y s1" by (rule try_RetD[OF a])
  have second: "?second s1 = Ret x s'" by (rule try_RetD[OF b])
  have "returns same_layout ?first" by (intro lay_bnd lay_prims lay_uninit)
  then have lay: "same_layout s s1" using first by (rule returnsD)
  from bnd_RetD[OF second] obtain src t1 where p1: "RawMemory_plus this ?k s1 = Ret src t1"
    and r1: "bnd (RawMemory_plus new ?k) (\<lambda>dst s.
          uninitialized_move_n E src (size_sub (size_m s this) ?k) (ptr_add dst 1) s) t1 = Ret x s'"
    by blast
  from plus_RetD[OF p1] have t1: "t1 = s1" by simp
  from bnd_RetD[OF r1] obtain dst t2 where p2: "RawMemory_plus new ?k t1 = Ret dst t2"
    and lp0: "uninitialized_move_n E src (size_sub (size_m t2 this) ?k) (ptr_add dst 1) t2 = Ret x s'"
    by blast
  from plus_RetD[OF p2] t1 have t2: "t2 = s1" "dst = (buffer_m s1 new, ?k)"
    and k: "?k \<le> capacity_m s1 new" by simp_all
  have lp: "uninitialized_move_n E src (size_sub (size_m s1 this) ?k) (buffer_m s1 new, Suc ?k) s1 = Ret x s'"
    using lp0 t2 by (simp add: ptr_add_def)
  have "size_m s1 this \<le> capacity_m s1 new \<or> slot s1 (buffer_m s1 new, size_m s1 this) \<noteq> None"
  proof (rule suffix_fits[OF _ k])
    fix n m assume "n = size_sub (size_m s1 this) ?k" "n = Suc m"
    then have "uninitialized_move_n E src (Suc m) (buffer_m s1 new, Suc ?k) s1 = Ret x s'"
      using lp by simp
    from move_n_Ret_last[OF this] show "slot s1 (buffer_m s1 new, Suc ?k + m) \<noteq> None"
      by (simp add: ptr_add_def)
  qed
  then show ?thesis
    using same_layout_members[OF lay] same_layout_slot[OF lay, of "(buffer_m s new, size_m s this)"]
    by auto
qed

lemma slots_le: "size_mul c z div z \<le> c"
proof (cases "z = 0")
  case True
  then show ?thesis by simp
next
  case False
  have "size_mul c z div z \<le> c * z div z"
    unfolding size_mul_def by (rule div_le_mono) simp
  then show ?thesis using False by simp
qed

lemma ctor_Ret:
  assumes "RawMemory_ctor E new c s = Ret x s1"
  shows "capacity_m s1 = (capacity_m s)(new := c)" "size_m s1 = size_m s"
    "slot s1 (buffer_m s1 new, i) \<noteq> None \<Longrightarrow> i < c"
proof -
  show "capacity_m s1 = (capacity_m s)(new := c)" "size_m s1 = size_m s"
    using assms
    by (auto simp: RawMemory_ctor_def Allocate_def operator_new_def bnd_def ret_def split: if_splits)
  assume "slot s1 (buffer_m s1 new, i) \<noteq> None"
  then have "i < size_mul c (sizeof_T E) div sizeof_T E"
    using assms
    by (auto simp: RawMemory_ctor_def Allocate_def operator_new_def bnd_def ret_def slot_def block_at_def
        split: if_splits)
  then show "i < c" using slots_le[of c "sizeof_T E"] by simp
qed

lemma tk_bnd:
  assumes "outcomes same_capacities m" and "\<And>x. throw_keeps (f x)"
  shows "throw_keeps (bnd m f)"
  unfolding throw_keeps_def
proof (intro allI impI)
  fix s e s' assume "bnd m f s = Throw e s'"
  then consider "m s = Throw e s'" | y s1 where "m s = Ret y s1" "f y s1 = Throw e s'"
    by (auto simp: bnd_def split: res.splits)
  then show "capacity_m s' = capacity_m s"
  proof cases
    case 1
    then show ?thesis using outcomes_Throw[OF assms(1)] by (simp add: same_capacities_def)
  next
    case 2
    then show ?thesis
      using outcomes_Ret[OF assms(1) 2(1)] assms(2)[of y] by (auto simp: same_capacities_def throw_keeps_def)
  qed
qed

lemma tk_never: "(\<And>s e s'. f s = Throw e s' \<Longrightarrow> False) \<Longrightarrow> throw_keeps f"
  by (auto simp: throw_keeps_def)

lemma tk_scope:
  assumes "throw_keeps m" and "outcomes same_capacities d" and "\<And>s e s'. d s = Throw e s' \<Longrightarrow> False"
  shows "throw_keeps (scope m d)"
  unfolding throw_keeps_def
proof (intro allI impI)
  fix s e s' assume "scope m d s = Throw e s'"
  then consider x s1 where "m s = Ret x s1" "d s1 = Throw e s'"
    | e1 s1 u where "m s = Throw e1 s1" "d s1 = Ret u s'"
    by (auto simp: scope_def split: res.splits)
  then show "capacity_m s' = capacity_m s"
  proof cases
    case 1
    then show ?thesis using assms(3) by blast
  next
    case 2
    then show ?thesis
      using assms(1) outcomes_Ret[OF assms(2) 2(2)] by (auto simp: throw_keeps_def same_capacities_def)
  qed
qed

lemma grow_not_below:
  assumes body: "outcomes (takes_local (Global g)) body"
    and le: "capacity_m s (Global g) \<le> c"
    and out: "bnd (RawMemory_ctor E Local c) (\<lambda>_. body) s = Ret x s' \<or>
              bnd (RawMemory_ctor E Local c) (\<lambda>_. body) s = Throw e s'"
  shows "capacity_m s (Global g) \<le> capacity_m s' (Global g)"
proof (cases "RawMemory_ctor E Local c s")
  case (Ret u s1)
  then have c1: "capacity_m s1 = (capacity_m s)(Local := c)" by (rule ctor_outcome)
  from out Ret have "body s1 = Ret x s' \<or> body s1 = Throw e s'" by (simp add: bnd_def)
  then have "takes_local (Global g) s1 s'"
    using outcomes_Ret[OF body] outcomes_Throw[OF body] by blast
  then show ?thesis using c1 le by (auto simp: takes_local_def)
next
  case (Throw e1 s1)
  then have "capacity_m s1 = capacity_m s" by (rule ctor_outcome)
  moreover from out Throw have "s' = s1" by (simp add: bnd_def)
  ultimately show ?thesis by simp
next
  case (Fault w)
  then show ?thesis using out by (simp add: bnd_def)
qed

lemma nb_Reserve: "outcomes (not_below (Global g)) (Reserve E (Global g) c)"
proof -
  let ?body = "scope
          (bnd (GetAddress (Global g)) (\<lambda>src. bnd (GetAddress Local) (\<lambda>dst.
           bnd (\<lambda>s. if migrate_by_move E then uninitialized_move_n E src (size_m s (Global g)) dst s
                     else uninitialized_copy_n E src (size_m s (Global g)) dst s) (\<lambda>_.
           bnd (\<lambda>s. destroy_n src (size_m s (Global g)) s) (\<lambda>_.
           RawMemory_Swap (Global g) Local)))))
          (RawMemory_dtor Local)"
  have mig: "outcomes same_capacities (\<lambda>s. if migrate_by_move E then uninitialized_move_n E src (size_m s (Global g)) dst s
                     else uninitialized_copy_n E src (size_m s (Global g)) dst s)" for src dst
    using keep_uninit(1)[of E src _ dst] keep_uninit(2)[of E src _ dst] by (simp add: outcomes_def)
  have dn: "outcomes same_capacities (\<lambda>s. destroy_n src (size_m s (Global g)) s)" for src
    by (rule keep_dep[where f = "destroy_n src" and g = "\<lambda>s. size_m s (Global g)"]) (rule keep_destroy_n)
  have body: "outcomes (takes_local (Global g)) ?body"
    by (intro tl_scope_keep tl_bnd_keep keep_prims keep_RawMemory_dtor tl_last mig dn)
  show ?thesis
  proof (rule outcomesI)
    fix s x s' assume r: "Reserve E (Global g) c s = Ret x s'"
    show "not_below (Global g) s s'"
    proof (cases "c \<le> capacity_m s (Global g)")
      case True then show ?thesis using r by (simp add: Reserve_def not_below_def)
    next
      case False
      then have "bnd (RawMemory_ctor E Local c) (\<lambda>_. ?body) s = Ret x s'" using r by (simp add: Reserve_def)
      then show ?thesis using grow_not_below[OF body, of s c E x s'] False by (simp add: not_below_def)
    qed
  next
    fix s e s' assume r: "Reserve E (Global g) c s = Throw e s'"
    show "not_below (Global g) s s'"
    proof (cases "c \<le> capacity_m s (Global g)")
      case True then show ?thesis using r by (simp add: Reserve_def not_below_def)
    next
      case False
      then have "bnd (RawMemory_ctor E Local c) (\<lambda>_. ?body) s = Throw e s'" using r by (simp add: Reserve_def)
      then show ?thesis using grow_not_below[OF body, of s c E _ s' e] False by (simp add: not_below_def)
    qed
  qed
qed

lemma keep_ifc: "outcomes R f \<Longrightarrow> outcomes R g \<Longrightarrow> outcomes R (if b then f else g)"
  by simp

lemma keep_destroy_dep: "outcomes same_capacities (\<lambda>s. destroy_n p (size_m s this) s)"
  by (rule keep_dep[where f = "destroy_n p" and g = "\<lambda>s. size_m s this"]) (rule keep_destroy_n)

lemma keep_DestroyN_dep: "outcomes same_capacities (\<lambda>s. DestroyN p (h s) s)"
  by (rule keep_dep[where f = "DestroyN p" and g = h]) (rule keep_DestroyN)

lemma keep_plus_dep: "outcomes same_capacities (\<lambda>s. RawMemory_plus this (h s) s)"
  by (rule keep_dep[where f = "RawMemory_plus this" and g = h]) (rule keep_prims)

lemma keep_index_dep: "outcomes same_capacities (\<lambda>s. RawMemory_index this (h s) s)"
  by (rule keep_dep[where f = "RawMemory_index this" and g = h]) (rule keep_prims)

lemma keep_ucopy_dep: "outcomes same_capacities (\<lambda>s. uninitialized_copy_n E src (h s) dst s)"
  by (rule keep_dep[where f = "\<lambda>n. uninitialized_copy_n E src n dst" and g = h]) (rule keep_uninit)

lemma keep_uvalue_dep: "outcomes same_capacities (\<lambda>s. uninitialized_value_construct_n E p (h s) s)"
  by (rule keep_dep[where f = "uninitialized_value_construct_n E p" and g = h]) (rule keep_uninit)

lemma keep_erase_dep: "outcomes same_capacities (\<lambda>s. erase_loop E this i (h s) s)"
  by (rule keep_dep[where f = "erase_loop E this i" and g = h]) (rule keep_erase_loop)

lemma bnd_dep: "(\<lambda>s. bnd (m (h s)) f s) = bnd (\<lambda>s. m (h s) s) f"
  by (rule ext) (simp add: bnd_def)

lemma keep_PopBack: "outcomes same_capacities (PopBack this)"
proof -
  let ?pop = "bnd (\<lambda>s. RawMemory_plus this (size_m s this - 1) s) (\<lambda>p. bnd (Destroy p) (\<lambda>_. dec_size this))"
  have a: "outcomes same_capacities ?pop"
    by (intro keep_bnd keep_plus_dep keep_Destroy keep_prims)
  have eq: "PopBack this = noexcept (\<lambda>s. if size_m s this \<noteq> 0 then ?pop s else Ret () s)"
    by (simp add: PopBack_def bnd_def cong: if_cong)
  show ?thesis
    unfolding eq by (intro keep_noexcept keep_if a keep_Ret)
qed

lemma keep_Erase: "outcomes same_capacities (Erase E this pos)"
  unfolding Erase_def
  by (intro keep_noexcept keep_bnd keep_Vector_begin keep_Vector_end keep_prims keep_erase_dep
      keep_Destroy keep_ret)

lemma keep_Vector_dtor: "outcomes same_capacities (Vector_dtor this)"
  unfolding Vector_dtor_def
  by (intro keep_bnd keep_prims keep_DestroyN_dep keep_RawMemory_dtor)

lemma RawMemory_dtor_ThrowD: "RawMemory_dtor this s = Throw e s' \<Longrightarrow> False"
  unfolding RawMemory_dtor_def by (rule Deallocate_ThrowD)

lemma emplace_grow_not_below:
  fixes E :: "'a env"
  assumes full: "size_m s (Global g) = capacity_m s (Global g)"
    and out: "bnd (RawMemory_ctor E Local c) (\<lambda>_.
         scope
           (bnd (RawMemory_plus Local delta) (\<lambda>p. bnd (construct_at E k p v) (\<lambda>_.
            bnd (if migrate_by_move E then TryInitMove E (Global g) nd Local
                 else TryInitCopy E (Global g) nd Local) (\<lambda>_.
            bnd (GetAddress (Global g)) (\<lambda>old. bnd (\<lambda>s. destroy_n old (size_m s (Global g)) s) (\<lambda>_.
            RawMemory_move_assign (Global g) Local))))))
           (RawMemory_dtor Local)) s = r"
    and r: "r = Ret x s' \<or> r = Throw e s'"
  shows "capacity_m s (Global g) \<le> capacity_m s' (Global g)"
proof -
  let ?mig = "if migrate_by_move E then TryInitMove E (Global g) nd Local
                 else TryInitCopy E (Global g) nd Local"
  let ?tail = "bnd (GetAddress (Global g)) (\<lambda>old. bnd (\<lambda>s. destroy_n old (size_m s (Global g)) s) (\<lambda>_.
            RawMemory_move_assign (Global g) Local))"
  let ?inner = "bnd (RawMemory_plus Local delta) (\<lambda>p. bnd (construct_at E k p v) (\<lambda>_. bnd ?mig (\<lambda>_. ?tail)))"
  let ?body = "scope ?inner (RawMemory_dtor Local)"
  have tl: "outcomes (takes_local (Global g)) ?body"
    by (intro tl_scope_keep tl_bnd_keep keep_prims keep_RawMemory_dtor tl_last keep_destroy_dep
        keep_ifc keep_TryInitCopy keep_TryInitMove)
  have "throw_keeps ?inner"
    by (intro tk_bnd keep_prims keep_destroy_dep keep_ifc keep_TryInitCopy keep_TryInitMove)
       (rule tk_never, erule RawMemory_move_assign_ThrowD)
  then have tk: "throw_keeps ?body"
    by (rule tk_scope) (rule keep_RawMemory_dtor, erule RawMemory_dtor_ThrowD)
  show ?thesis
  proof (cases "RawMemory_ctor E Local c s")
    case (Fault w)
    then show ?thesis using out r by (auto simp: bnd_def)
  next
    case (Throw e1 s1)
    then have "capacity_m s1 = capacity_m s" by (rule ctor_outcome)
    moreover from out r Throw have "s' = s1" by (auto simp: bnd_def)
    ultimately show ?thesis by simp
  next
    case (Ret u s1)
    note c1 = ctor_Ret[OF Ret]
    have b: "?body s1 = r" using out Ret by (simp add: bnd_def)
    from r show ?thesis
    proof
      assume "r = Throw e s'"
      then have "capacity_m s' = capacity_m s1" using tk b by (auto simp: throw_keeps_def)
      then show ?thesis using c1(1) by simp
    next
      assume rr: "r = Ret x s'"
      then have "takes_local (Global g) s1 s'" using outcomes_Ret[OF tl] b by blast
      moreover have "size_m s (Global g) \<le> c"
      proof -
        from b rr obtain t where "?inner s1 = Ret x t" by (blast dest: scope_RetD)
        from bnd_RetD[OF this] obtain p t1 where p: "RawMemory_plus Local delta s1 = Ret p t1"
          and i1: "bnd (construct_at E k p v) (\<lambda>_. bnd ?mig (\<lambda>_. ?tail)) t1 = Ret x t" by blast
        from plus_RetD[OF p] have t1: "t1 = s1" by simp
        from bnd_RetD[OF i1] obtain y s2 where cons: "construct_at E k p v t1 = Ret y s2"
          and i2: "bnd ?mig (\<lambda>_. ?tail) s2 = Ret x t" by blast
        from bnd_RetD[OF i2] obtain y' s3 where mig: "?mig s2 = Ret y' s3" by blast
        have lay: "same_layout s1 s2" using returnsD[OF lay_prims(1) cons] t1 by simp
        have "size_m s2 (Global g) \<le> capacity_m s2 Local
              \<or> slot s2 (buffer_m s2 Local, size_m s2 (Global g)) \<noteq> None"
          using mig TryInitMove_Ret_fits[of E "Global g" nd Local s2 y' s3]
            TryInitCopy_Ret_fits[of E "Global g" nd Local s2 y' s3]
          by (simp split: if_splits)
        then have "size_m s1 (Global g) \<le> capacity_m s1 Local
              \<or> slot s1 (buffer_m s1 Local, size_m s1 (Global g)) \<noteq> None"
          using same_layout_members[OF lay]
            same_layout_slot[OF lay, of "(buffer_m s1 Local, size_m s1 (Global g))"] by auto
        then show ?thesis
        proof
          assume "size_m s1 (Global g) \<le> capacity_m s1 Local"
          then show ?thesis using c1(1,2) by simp
        next
          assume "slot s1 (buffer_m s1 Local, size_m s1 (Global g)) \<noteq> None"
          from c1(3)[OF this] show ?thesis using c1(2) by simp
        qed
      qed
      ultimately show ?thesis using c1(1) full by (auto simp: takes_local_def)
    qed
  qed
qed

lemma nb_Emplace: "outcomes (not_below (Global g)) (Emplace E (Global g) pos k v)"
proof -
  let ?body = "\<lambda>delta. scope
           (bnd (RawMemory_plus Local delta) (\<lambda>p. bnd (construct_at E k p v) (\<lambda>_.
            bnd (if migrate_by_move E then TryInitMove E (Global g) (to_int delta) Local
                 else TryInitCopy E (Global g) (to_int delta) Local) (\<lambda>_.
            bnd (GetAddress (Global g)) (\<lambda>old. bnd (\<lambda>s. destroy_n old (size_m s (Global g)) s) (\<lambda>_.
            RawMemory_move_assign (Global g) Local))))))
           (RawMemory_dtor Local)"
  let ?one = "bnd (Vector_begin (Global g)) (\<lambda>p. construct_at E k p v)"
  let ?shift = "\<lambda>delta. bnd (make_temp E k v) (\<lambda>tmp.
         bnd (Vector_end (Global g)) (\<lambda>e. bnd (ptr_sub e 1) (\<lambda>l.
         bnd (move_construct E e l) (\<lambda>_.
         bnd (Vector_begin (Global g)) (\<lambda>b.
         bnd (move_backward E (ptr_add b delta) l e) (\<lambda>_.
         bnd (RawMemory_index (Global g) delta) (\<lambda>d. assign_at E MoveAssign d tmp)))))))"
  let ?grow = "\<lambda>delta s. bnd (RawMemory_ctor E Local
         (if size_m s (Global g) = 0 then 1 else size_mul (size_m s (Global g)) 2)) (\<lambda>_. ?body delta) s"
  have one: "outcomes same_capacities ?one"
    by (intro keep_bnd keep_Vector_begin keep_prims)
  have shift: "outcomes same_capacities (?shift delta)" for delta
    by (intro keep_bnd keep_Vector_begin keep_Vector_end keep_prims keep_move_construct keep_move_backward)
  have mid: "outcomes (not_below (Global g)) (\<lambda>s.
       if size_m s (Global g) = capacity_m s (Global g) then ?grow delta s
       else if size_m s (Global g) = 0 then ?one s
       else ?shift delta s)" for delta
  proof (rule outcomesI)
    fix s x s'
    assume r: "(if size_m s (Global g) = capacity_m s (Global g) then ?grow delta s
       else if size_m s (Global g) = 0 then ?one s
       else ?shift delta s) = Ret x s'"
    show "not_below (Global g) s s'"
    proof (cases "size_m s (Global g) = capacity_m s (Global g)")
      case True
      then have "?grow delta s = Ret x s'" using r by simp
      from emplace_grow_not_below[OF True this disjI1[OF refl]]
      show ?thesis by (simp add: not_below_def)
    next
      case False
      then show ?thesis
        using r outcomes_Ret[OF nb_keep[OF one]] outcomes_Ret[OF nb_keep[OF shift]]
        by (auto split: if_splits)
    qed
  next
    fix s e s'
    assume r: "(if size_m s (Global g) = capacity_m s (Global g) then ?grow delta s
       else if size_m s (Global g) = 0 then ?one s
       else ?shift delta s) = Throw e s'"
    show "not_below (Global g) s s'"
    proof (cases "size_m s (Global g) = capacity_m s (Global g)")
      case True
      then have "?grow delta s = Throw e s'" using r by simp
      from emplace_grow_not_below[OF True this disjI2[OF refl]]
      show ?thesis by (simp add: not_below_def)
    next
      case False
      then show ?thesis
        using r outcomes_Throw[OF nb_keep[OF one]] outcomes_Throw[OF nb_keep[OF shift]]
        by (auto split: if_splits)
    qed
  qed
  show ?thesis
    unfolding Emplace_def
    by (intro nb_bnd mid nb_keep[OF keep_Vector_begin] nb_keep[OF keep_prims(7)]
        nb_keep[OF keep_prims(12)] nb_keep[OF keep_ret])
qed

lemma nb_Resize: "outcomes (not_below (Global g)) (Resize E (Global g) n)"
proof -
  let ?shrink = "bnd (RawMemory_plus (Global g) n) (\<lambda>p s. DestroyN p (size_m s (Global g) - n) s)"
  let ?grow = "bnd (Reserve E (Global g) n) (\<lambda>_.
                 bnd (\<lambda>s. RawMemory_plus (Global g) (size_m s (Global g)) s) (\<lambda>p s.
                 uninitialized_value_construct_n E p (n - size_m s (Global g)) s))"
  have shrink: "outcomes (not_below (Global g)) ?shrink"
    by (intro nb_keep keep_bnd keep_prims keep_DestroyN_dep)
  have grow: "outcomes (not_below (Global g)) ?grow"
    by (intro nb_bnd nb_Reserve nb_keep[OF keep_plus_dep] nb_keep[OF keep_uvalue_dep])
  have eq: "Resize E (Global g) n =
      bnd (\<lambda>s. if n < size_m s (Global g) then ?shrink s
                else (if n > size_m s (Global g) then ?grow s else Ret () s))
         (\<lambda>_ s. Ret () (s\<lparr>size_m := (size_m s)(Global g := n)\<rparr>))"
    by (simp add: Resize_def)
  show ?thesis
    unfolding eq
    by (intro nb_bnd nb_if shrink grow nb_keep[OF keep_Ret] nb_keep[OF keep_prims(16)])
qed

lemma nb_PushBack_kind: "outcomes (not_below (Global g)) (PushBack_kind E k (Global g) v)"
proof -
  let ?full = "bnd (Vector_begin (Global g))
     (\<lambda>b s. bnd (Emplace E (Global g) (ptr_add b (size_m s (Global g))) k v) (\<lambda>_. ret ()) s)"
  let ?spare = "bnd (\<lambda>s. RawMemory_plus (Global g) (size_m s (Global g)) s) (\<lambda>p.
        bnd (construct_at E k p v) (\<lambda>_. inc_size (Global g)))"
  have em: "outcomes (not_below (Global g))
      (\<lambda>s. bnd (Emplace E (Global g) (ptr_add b (size_m s (Global g))) k v) (\<lambda>_. ret ()) s)" for b
    by (rule nb_dep[where f = "\<lambda>n. bnd (Emplace E (Global g) (ptr_add b n) k v) (\<lambda>_. ret ())"])
       (intro nb_bnd nb_Emplace nb_keep[OF keep_ret])
  have full: "outcomes (not_below (Global g)) ?full"
    by (intro nb_bnd em nb_keep[OF keep_Vector_begin])
  have spare: "outcomes (not_below (Global g)) ?spare"
    by (intro nb_keep keep_bnd keep_plus_dep keep_prims)
  have eq: "PushBack_kind E k (Global g) v =
      (\<lambda>s. if size_m s (Global g) = capacity_m s (Global g) then ?full s else ?spare s)"
    by (rule ext) (simp add: PushBack_kind_def)
  show ?thesis unfolding eq by (intro nb_if full spare)
qed

lemma nb_EmplaceBack: "outcomes (not_below (Global g)) (EmplaceBack E (Global g) k v)"
proof -
  let ?full = "bnd (Vector_begin (Global g))
     (\<lambda>b s. Emplace E (Global g) (ptr_add b (size_m s (Global g))) k v s)"
  let ?spare = "bnd (\<lambda>s. RawMemory_plus (Global g) (size_m s (Global g)) s) (\<lambda>p.
        bnd (construct_at E k p v) (\<lambda>_.
        bnd (inc_size (Global g)) (\<lambda>_ s. RawMemory_index (Global g) (size_sub (size_m s (Global g)) 1) s)))"
  have em: "outcomes (not_below (Global g)) (\<lambda>s. Emplace E (Global g) (ptr_add b (size_m s (Global g))) k v s)" for b
    by (rule nb_dep[where f = "\<lambda>n. Emplace E (Global g) (ptr_add b n) k v"]) (rule nb_Emplace)
  have full: "outcomes (not_below (Global g)) ?full"
    by (intro nb_bnd em nb_keep[OF keep_Vector_begin])
  have spare: "outcomes (not_below (Global g)) ?spare"
    by (intro nb_keep keep_bnd keep_plus_dep keep_prims keep_index_dep)
  have eq: "EmplaceBack E (Global g) k v =
      (\<lambda>s. if size_m s (Global g) = capacity_m s (Global g) then ?full s else ?spare s)"
    by (rule ext) (simp add: EmplaceBack_def)
  show ?thesis unfolding eq by (intro nb_if full spare)
qed

lemma Vector_copy_outcome:
  assumes "this \<noteq> other"
  shows "Vector_copy E this other s = Ret x s' \<Longrightarrow> capacity_m s' = (capacity_m s)(this := size_m s other)"
    and "Vector_copy E this other s = Throw e s' \<Longrightarrow>
           capacity_m s' = (capacity_m s)(this := size_m s other) \<or> capacity_m s' = capacity_m s"
proof -
  let ?rest = "bnd (\<lambda>s. Ret () (s\<lparr>size_m := (size_m s)(this := size_m s other)\<rparr>)) (\<lambda>_.
     try_catch_rethrow
       (bnd (GetAddress other) (\<lambda>src. bnd (GetAddress this) (\<lambda>dst s.
          uninitialized_copy_n E src (size_m s other) dst s)))
       (RawMemory_dtor this))"
  have rest: "outcomes same_capacities ?rest"
    by (intro keep_bnd keep_try keep_prims keep_ucopy_dep keep_RawMemory_dtor)
  have eq: "Vector_copy E this other s = bnd (RawMemory_ctor E this (size_m s other)) (\<lambda>_. ?rest) s"
    by (simp add: Vector_copy_def bnd_def)
  {
    assume "Vector_copy E this other s = Ret x s'"
    then obtain u s1 where c: "RawMemory_ctor E this (size_m s other) s = Ret u s1" and r: "?rest s1 = Ret x s'"
      unfolding eq by (auto simp: bnd_def[of "RawMemory_ctor _ _ _"] split: res.splits)
    from ctor_outcome(1)[OF c] outcomes_Ret[OF rest r]
    show "capacity_m s' = (capacity_m s)(this := size_m s other)" by (simp add: same_capacities_def)
  }
  {
    assume "Vector_copy E this other s = Throw e s'"
    then consider "RawMemory_ctor E this (size_m s other) s = Throw e s'"
      | u s1 where "RawMemory_ctor E this (size_m s other) s = Ret u s1" "?rest s1 = Throw e s'"
      unfolding eq by (auto simp: bnd_def[of "RawMemory_ctor _ _ _"] split: res.splits)
    then show "capacity_m s' = (capacity_m s)(this := size_m s other) \<or> capacity_m s' = capacity_m s"
    proof cases
      case 1 then show ?thesis using ctor_outcome(2) by blast
    next
      case 2
      from ctor_outcome(1)[OF 2(1)] outcomes_Throw[OF rest 2(2)]
      show ?thesis by (simp add: same_capacities_def)
    qed
  }
qed

lemma nb_copy_assign: "outcomes (not_below (Global g)) (Vector_copy_assign E (Global g) (Global r))"
proof -
  let ?rhs = "Global r"
  let ?swap = "scope (Swap (Global g) Local) (Vector_dtor Local)"
  let ?shrink = "bnd (\<lambda>s. assign_loop E (Global g) ?rhs 0 (size_m s ?rhs) s) (\<lambda>_.
           bnd (\<lambda>s. RawMemory_plus (Global g) (size_m s ?rhs) s) (\<lambda>p.
           bnd (\<lambda>s. DestroyN p (size_m s (Global g) - size_m s ?rhs) s) (\<lambda>_ s.
           Ret () (s\<lparr>size_m := (size_m s)(Global g := size_m s ?rhs)\<rparr>))))"
  let ?extend = "bnd (\<lambda>s. assign_loop E (Global g) ?rhs 0 (size_m s (Global g)) s) (\<lambda>_.
           bnd (\<lambda>s. RawMemory_plus ?rhs (size_m s (Global g)) s) (\<lambda>src.
           bnd (GetAddress (Global g)) (\<lambda>dst.
           bnd (\<lambda>s. uninitialized_copy_n E src (size_m s ?rhs - size_m s (Global g)) dst s) (\<lambda>_ s.
           Ret () (s\<lparr>size_m := (size_m s)(Global g := size_m s ?rhs)\<rparr>)))))"
  have al: "outcomes same_capacities (\<lambda>s. assign_loop E (Global g) ?rhs 0 (h s) s)" for h :: "'a state \<Rightarrow> nat"
    by (rule keep_dep[where f = "assign_loop E (Global g) ?rhs 0" and g = h]) (rule keep_assign_loop)
  have shrink: "outcomes same_capacities ?shrink"
    by (intro keep_bnd al keep_plus_dep keep_DestroyN_dep keep_prims)
  have extend: "outcomes same_capacities ?extend"
    by (intro keep_bnd al keep_plus_dep keep_ucopy_dep keep_prims)
  have swap: "outcomes (takes_local (Global g)) ?swap"
    by (intro tl_scope_keep tl_last keep_Vector_dtor)
  have eq: "Vector_copy_assign E (Global g) ?rhs s =
     (if Global g \<noteq> ?rhs then
        (if size_m s ?rhs > capacity_m s (Global g) then bnd (Vector_copy E Local ?rhs) (\<lambda>_. ?swap) s
         else if size_m s ?rhs < size_m s (Global g) then ?shrink s else ?extend s)
      else Ret () s)" for s
    by (simp add: Vector_copy_assign_def bnd_def cong: if_cong)
  have ne: "Local \<noteq> ?rhs" by simp
  have grow: "capacity_m s (Global g) \<le> capacity_m s' (Global g)"
    if big: "size_m s ?rhs > capacity_m s (Global g)"
      and out: "bnd (Vector_copy E Local ?rhs) (\<lambda>_. ?swap) s = Ret x s' \<or>
                (\<exists>e. bnd (Vector_copy E Local ?rhs) (\<lambda>_. ?swap) s = Throw e s')" for s s' and x :: unit
  proof (cases "Vector_copy E Local ?rhs s")
    case (Ret u s1)
    then have c1: "capacity_m s1 = (capacity_m s)(Local := size_m s ?rhs)"
      using Vector_copy_outcome(1)[OF ne] by blast
    from out Ret have "?swap s1 = Ret x s' \<or> (\<exists>e. ?swap s1 = Throw e s')" by (simp add: bnd_def)
    then have "takes_local (Global g) s1 s'"
      using outcomes_Ret[OF swap] outcomes_Throw[OF swap] by blast
    then show ?thesis using c1 big by (auto simp: takes_local_def)
  next
    case (Throw e1 s1)
    then have "capacity_m s1 = (capacity_m s)(Local := size_m s ?rhs) \<or> capacity_m s1 = capacity_m s"
      using Vector_copy_outcome(2)[OF ne] by blast
    moreover from out Throw have "s' = s1" by (simp add: bnd_def)
    ultimately show ?thesis by auto
  next
    case (Fault w)
    then show ?thesis using out by (simp add: bnd_def)
  qed
  show ?thesis
  proof (rule outcomesI)
    fix s x s' assume r: "Vector_copy_assign E (Global g) ?rhs s = Ret x s'"
    show "not_below (Global g) s s'"
    proof (cases "Global g \<noteq> ?rhs \<and> size_m s ?rhs > capacity_m s (Global g)")
      case True
      then have "bnd (Vector_copy E Local ?rhs) (\<lambda>_. ?swap) s = Ret x s'" using r unfolding eq by simp
      then show ?thesis using grow[of s x s'] True by (simp add: not_below_def)
    next
      case False
      then show ?thesis
        using r outcomes_Ret[OF shrink] outcomes_Ret[OF extend] unfolding eq
        by (auto simp: same_capacities_def not_below_def split: if_splits)
    qed
  next
    fix s e s' assume r: "Vector_copy_assign E (Global g) ?rhs s = Throw e s'"
    show "not_below (Global g) s s'"
    proof (cases "Global g \<noteq> ?rhs \<and> size_m s ?rhs > capacity_m s (Global g)")
      case True
      then have "bnd (Vector_copy E Local ?rhs) (\<lambda>_. ?swap) s = Throw e s'" using r unfolding eq by simp
      then show ?thesis using grow[of s "()" s'] True by (auto simp: not_below_def)
    next
      case False
      then show ?thesis
        using r outcomes_Throw[OF shrink] outcomes_Throw[OF extend] unfolding eq
        by (auto simp: same_capacities_def not_below_def split: if_splits)
    qed
  qed
qed

lemma nb_at_offset:
  assumes "\<And>pos. outcomes (not_below this) (f pos)"
  shows "outcomes (not_below this) (at_offset this i f)"
  unfolding at_offset_def
  by (intro nb_bnd assms nb_keep[OF keep_Vector_begin] nb_keep[OF keep_ret])

lemma nb_apply_op:
  assumes "\<not> is_move_assign c"
  shows "outcomes (not_below (Global g)) (apply_op E (Global g) c)"
proof (cases c)
  case (CopyAssignFrom r) then show ?thesis by (simp add: nb_copy_assign)
next
  case (MoveAssignFrom r) then show ?thesis using assms by simp
next
  case (DoReserve n) then show ?thesis by (simp add: nb_Reserve)
next
  case (DoResize n) then show ?thesis by (simp add: nb_Resize)
next
  case (DoPushBack v) then show ?thesis by (simp add: PushBack_def nb_PushBack_kind)
next
  case (DoPushBackMove v) then show ?thesis by (simp add: PushBack_move_def nb_PushBack_kind)
next
  case DoPopBack then show ?thesis by (simp add: nb_keep[OF keep_PopBack])
next
  case (DoEmplaceBack v)
  then show ?thesis by (simp add: nb_bnd nb_EmplaceBack nb_keep[OF keep_ret])
next
  case (DoEmplace i v) then show ?thesis by (simp add: nb_at_offset nb_Emplace)
next
  case (DoInsert i v) then show ?thesis by (simp add: nb_at_offset nb_Emplace Insert_def)
next
  case (DoInsertMove i v) then show ?thesis by (simp add: nb_at_offset nb_Emplace Insert_move_def)
next
  case (DoErase i) then show ?thesis by (simp add: nb_at_offset nb_keep[OF keep_Erase])
qed

text \<open>
  C5, as the specification states it: no operation other than a move-from or a swap
  reduces the capacity, move assignment into the container included. Move assignment
  into the vector \<open>Global 0\<close> (capacity 4) from the empty vector \<open>Global 2\<close> (capacity 0)
  releases the destination's block and takes over the source's buffer and capacity:
  the capacity falls from 4 to 0.
\<close>

theorem move_assign_shrinks_capacity:
  "capacity_m two_vectors (Global 0) = 4 \<and>
   observe (apply_op plain (Global 0) (MoveAssignFrom 2) two_vectors) (Global 0) = Ret () (0, 0, None)"
  by (simp add: eval_defs)

text \<open>
  C5, amended. Along every sequence of copy assignments, \<open>Reserve\<close>, \<open>Resize\<close>,
  \<open>PushBack\<close>, \<open>PopBack\<close>, \<open>EmplaceBack\<close>, \<open>Emplace\<close>, \<open>Insert\<close> and \<open>Erase\<close> applied to a
  vector (no move-from, no swap, and no move assignment into it), whether the
  operations return or throw, the capacity at the end is not below the capacity at the
  start; so it never decreases from one operation to the next.
\<close>

theorem capacity_never_shrinks:
  assumes "\<forall>c \<in> set cs. \<not> is_move_assign c" and "run E (Global g) cs s = Some s'"
  shows "capacity_m s (Global g) \<le> capacity_m s' (Global g)"
  using assms
proof (induction cs arbitrary: s)
  case Nil
  then show ?case by simp
next
  case (Cons c cs)
  then have nm: "\<not> is_move_assign c" by simp
  from Cons.prems(2) obtain s1 where
    s1: "(\<exists>x. apply_op E (Global g) c s = Ret x s1) \<or> (\<exists>e. apply_op E (Global g) c s = Throw e s1)"
      and rest: "run E (Global g) cs s1 = Some s'"
    by (auto split: res.splits)
  have "not_below (Global g) s s1"
    using s1 outcomes_Ret[OF nb_apply_op[OF nm]] outcomes_Throw[OF nb_apply_op[OF nm]] by blast
  moreover have "capacity_m s1 (Global g) \<le> capacity_m s' (Global g)"
    using Cons.IH[OF _ rest] Cons.prems(1) by simp
  ultimately show ?case by (simp add: not_below_def)
qed

theorem capacity_never_shrinks_witness:
  "list_all (\<lambda>c. c \<notin> range MoveAssignFrom)
      [DoPushBack 3, DoPopBack, DoResize 1, DoErase 0, CopyAssignFrom 1, DoReserve 10 :: int vop] \<and>
   (\<exists>s'. run plain (Global 0)
            [DoPushBack 3, DoPopBack, DoResize 1, DoErase 0, CopyAssignFrom 1, DoReserve 10] two_vectors
          = Some s' \<and>
        capacity_m two_vectors (Global 0) \<le> capacity_m s' (Global 0))"
proof -
  have a: "\<forall>c \<in> set [DoPushBack 3, DoPopBack, DoResize 1, DoErase 0, CopyAssignFrom 1, DoReserve (10::nat)].
      \<not> is_move_assign (c :: int vop)" by simp
  obtain s' where r: "run plain (Global 0)
            [DoPushBack 3, DoPopBack, DoResize 1, DoErase 0, CopyAssignFrom 1, DoReserve 10] two_vectors = Some s'"
    by (simp add: eval_defs at_offset_def DestroyN_eq)
  show ?thesis
    using a r capacity_never_shrinks[OF a r] by auto
qed

end
